theory Spec2Isabelle
  imports Complex_Main "HOL-Library.AList"
begin

section \<open>The stream consumer (kafka\_consumer.py)\<close>

text \<open>
  The consumer object owns a broker handle, the snapshot \<open>current_topics\<close> and the
  field \<open>retry_delay\<close>. Everything it does to the outside (broker calls, log lines,
  sleeps, calls of the parent's routine) is recorded, in order, in \<open>events\<close>. A log
  line is recorded with its level and the constant part of its text; the interpolated
  values are left out.
\<close>

datatype level = DEBUG | INFO | WARNING | ERROR

text \<open>
  What \<open>json.loads\<close> produces. Python tests such a value for truth in
  \<open>if deserialized_data:\<close>; \<open>truthy\<close> is that test.
\<close>

datatype json =
    JNull
  | JBool bool
  | JInt int
  | JFloat real
  | JStr string
  | JArr "json list"
  | JObj "(string \<times> json) list"

fun truthy :: "json \<Rightarrow> bool" where
  "truthy JNull = False"
| "truthy (JBool b) = b"
| "truthy (JInt i) = (i \<noteq> 0)"
| "truthy (JFloat r) = (r \<noteq> 0)"
| "truthy (JStr s) = (s \<noteq> [])"
| "truthy (JArr xs) = (xs \<noteq> [])"
| "truthy (JObj kvs) = (kvs \<noteq> [])"

datatype event =
    Log level string
  | Subscribe "string list"
  | ListTopics
  | Poll
  | Dispatch string json
  | Sleep nat
  | Close

text \<open>
  The exceptions that occur. \<open>BrokerFailure\<close> stands for whatever the broker client
  raises that is not a \<open>KafkaError\<close>, \<open>RoutineError\<close> for what the parent's routine
  raises, \<open>ConnectionError\<close> and \<open>Timeout\<close> for the transport errors of \<open>requests\<close>,
  \<open>HTTPError\<close> for what \<open>raise_for_status\<close> raises, \<open>TypeError\<close> for a payload that
  cannot be serialized, \<open>RuntimeError\<close> for any other exception an HTTP call lets through.
\<close>

datatype exn =
    KafkaError
  | BrokerFailure
  | AttributeError
  | UnicodeDecodeError
  | IndexError
  | KeyError
  | RoutineError
  | ConnectionError
  | Timeout
  | HTTPError
  | TypeError
  | RuntimeError

record consumer =
  is_running :: bool
  current_topics :: "string set"
  retry_delay :: nat
  events :: "event list"

definition emit :: "event \<Rightarrow> consumer \<Rightarrow> consumer" where
  "emit e s = s\<lparr>events := events s @ [e]\<rparr>"

definition logger :: "level \<Rightarrow> string \<Rightarrow> consumer \<Rightarrow> consumer" where
  "logger l m s = emit (Log l m) s"

text \<open>\<open>list(topics_dict.values())\<close>, in the order the dictionary is written.\<close>

definition topics_dict :: "(string \<times> string) list" where
  "topics_dict =
     [(''anomalies'', ''^.*_anomalies$''),
      (''normal_data'', ''^.*_normal_data$''),
      (''statistics'', ''^.*_statistics$'')]"

definition patterns :: "string list" where
  "patterns = map snd topics_dict"

text \<open>
  The value a Python call hands back. \<open>subscribe\<close> and \<open>topic_update\<close> have no
  \<open>return\<close> with a value on any path, so they hand back \<open>PyNone\<close>.
\<close>

datatype pyvalue = PyNone | PyTopics "string set"

text \<open>
  How the broker answers \<open>consumer.subscribe\<close>: it accepts, it raises the
  \<open>KafkaError\<close> that \<open>subscribe\<close> catches, or it raises something else.
\<close>

datatype subscribe_answer = Accepted | RaisesKafkaError | RaisesOther

definition subscribe :: "subscribe_answer \<Rightarrow> consumer \<Rightarrow> (exn + pyvalue) \<times> consumer" where
  "subscribe ans s =
     (let s1 = emit (Subscribe patterns) s in
      case ans of
        RaisesKafkaError \<Rightarrow> (Inr PyNone, logger ERROR ''Error subscribing to topics'' s1)
      | RaisesOther \<Rightarrow> (Inl BrokerFailure, s1)
      | Accepted \<Rightarrow> (Inr PyNone, logger DEBUG ''(Re)Started consuming messages from topics'' s1))"

text \<open>
  \<open>topic_update\<close>: \<open>listing\<close> is what \<open>consumer.list_topics().topics.keys()\<close>
  gives (\<open>None\<close> when the call raises), \<open>ans\<close> how the broker answers a
  subscription should one be issued.
\<close>

definition topic_update ::
  "string set option \<Rightarrow> subscribe_answer \<Rightarrow> consumer \<Rightarrow> (exn + pyvalue) \<times> consumer" where
  "topic_update listing ans s =
     (let s0 = emit ListTopics s in
      case listing of
        None \<Rightarrow> (Inl BrokerFailure, s0)
      | Some available_topics \<Rightarrow>
          (let new_topics = available_topics - current_topics s0;
               s1 = s0\<lparr>current_topics := available_topics\<rparr>
           in if new_topics \<noteq> {}
              then (case subscribe ans (logger DEBUG ''New topics'' s1) of
                      (Inl x, s2) \<Rightarrow> (Inl x, s2)
                    | (Inr _, s2) \<Rightarrow> (Inr PyNone, s2))
              else (Inr PyNone, s1)))"

text \<open>The subscriptions issued between two states of the consumer.\<close>

definition subscriptions :: "event list \<Rightarrow> nat" where
  "subscriptions es = length (filter (\<lambda>e. case e of Subscribe _ \<Rightarrow> True | _ \<Rightarrow> False) es)"

subsection \<open>Records and the consumption loop\<close>

text \<open>
  A polled record. \<open>payload\<close> classifies the bytes of \<open>msg.value()\<close> by what
  \<open>msg.value().decode('utf-8')\<close> and \<open>json.loads\<close> do with them: there is no value
  (\<open>None\<close>, so \<open>.decode\<close> raises \<open>AttributeError\<close>), the bytes are not UTF-8
  (\<open>UnicodeDecodeError\<close>), the text is not JSON (\<open>json.JSONDecodeError\<close>), or the text
  parses to a value.
\<close>

datatype payload = NoValue | NotUtf8 | NotJson | Parsed json

datatype error_code = PARTITION_EOF | UNKNOWN_TOPIC_OR_PART | OtherCode int

record kafka_error =
  err_code :: error_code
  err_str :: string

record message =
  msg_error :: "kafka_error option"
  msg_topic :: string
  msg_value :: payload

datatype poll_result = NoMessage | PollRaises | Message message

text \<open>Python's \<open>s.split(': ')\<close>: the fields between non-overlapping occurrences, left to right.\<close>

fun split_colon_space :: "string \<Rightarrow> string \<Rightarrow> string list" where
  "split_colon_space acc [] = [rev acc]"
| "split_colon_space acc [c] = [rev (c # acc)]"
| "split_colon_space acc (c # d # cs) =
     (if c = CHR '':'' \<and> d = CHR '' '' then rev acc # split_colon_space [] cs
      else split_colon_space (c # acc) (d # cs))"

text \<open>\<open>xs[1]\<close>, which raises \<open>IndexError\<close> on a list shorter than two.\<close>

definition index1 :: "'a list \<Rightarrow> exn + 'a" where
  "index1 xs = (case xs of _ # y # _ \<Rightarrow> Inr y | _ \<Rightarrow> Inl IndexError)"

definition deserialize_message :: "message \<Rightarrow> consumer \<Rightarrow> (exn + json) \<times> consumer" where
  "deserialize_message msg s =
     (case msg_value msg of
        NoValue \<Rightarrow> (Inl AttributeError, s)
      | NotUtf8 \<Rightarrow> (Inl UnicodeDecodeError, s)
      | NotJson \<Rightarrow> (Inr JNull, logger ERROR ''Error deserializing message'' s)
      | Parsed v \<Rightarrow> (Inr v, s))"

text \<open>
  One pass through the body of \<open>while True\<close>. \<open>routine topic data\<close> tells whether
  \<open>parent.process_message_routine\<close> returns (\<open>True\<close>) or raises. The result is
  \<open>None\<close> when the body reaches its end or a \<open>continue\<close>, and the exception when
  one leaves the body. The assignment \<open>retry_delay = 1\<close> that ends the body writes a
  local variable nothing reads, so it leaves the state as it is.
\<close>

definition loop_body ::
  "(string \<Rightarrow> json \<Rightarrow> bool) \<Rightarrow> poll_result \<Rightarrow> consumer \<Rightarrow> exn option \<times> consumer" where
  "loop_body routine p s =
     (let s0 = emit Poll s in
      case p of
        PollRaises \<Rightarrow> (Some BrokerFailure, s0)
      | NoMessage \<Rightarrow> (None, s0)
      | Message msg \<Rightarrow>
          (case msg_error msg of
             Some e \<Rightarrow>
               (if err_code e = PARTITION_EOF
                then (None, logger INFO ''End of partition reached'' s0)
                else if err_code e = UNKNOWN_TOPIC_OR_PART
                then (case index1 (split_colon_space [] (err_str e)) of
                        Inl x \<Rightarrow> (Some x, s0)
                      | Inr name \<Rightarrow>
                          if name \<in> set patterns
                          then (None, logger INFO ''No avilable vehicles yet'' s0)
                          else (None, logger ERROR ''Consumer error'' s0))
                else (None, logger ERROR ''Consumer error'' s0))
           | None \<Rightarrow>
               (case deserialize_message msg s0 of
                  (Inl x, s1) \<Rightarrow> (Some x, s1)
                | (Inr deserialized_data, s1) \<Rightarrow>
                    if truthy deserialized_data
                    then (if routine (msg_topic msg) deserialized_data
                          then (None, emit (Dispatch (msg_topic msg) deserialized_data) s1)
                          else (Some RoutineError, emit (Dispatch (msg_topic msg) deserialized_data) s1))
                    else (None, logger WARNING ''Deserialized message is None'' s1))))"

text \<open>
  The loop over the poll results the broker gives, first to last. The list is the finite
  part of the broker's behaviour looked at; when it is used up the loop is still polling.
\<close>

fun while_true ::
  "(string \<Rightarrow> json \<Rightarrow> bool) \<Rightarrow> poll_result list \<Rightarrow> consumer \<Rightarrow> exn option \<times> consumer" where
  "while_true routine [] s = (None, s)"
| "while_true routine (p # ps) s =
     (case loop_body routine p s of
        (Some x, s1) \<Rightarrow> (Some x, s1)
      | (None, s1) \<Rightarrow> while_true routine ps s1)"

text \<open>
  \<open>read_messages\<close>: either the loop is still polling, or an exception left it, the
  handler ran, \<open>finally\<close> closed the handle and the function returned. \<open>Returned\<close>
  carries the value the handler assigned to its local variable \<open>retry_delay\<close>.
\<close>

datatype run = Polling consumer | Returned nat consumer

definition read_messages ::
  "(string \<Rightarrow> json \<Rightarrow> bool) \<Rightarrow> poll_result list \<Rightarrow> consumer \<Rightarrow> run" where
  "read_messages routine ps s =
     (case while_true routine ps s of
        (None, s1) \<Rightarrow> Polling s1
      | (Some x, s1) \<Rightarrow>
          (let s2 = logger ERROR ''Error while reading message'' s1;
               s3 = logger INFO ''Retrying in'' s2;
               s4 = emit (Sleep (retry_delay s3)) s3;
               local_retry_delay = min (retry_delay s4 * 2) 60
           in Returned local_retry_delay (emit Close s4)))"

text \<open>The object as \<open>__init__\<close> sets its fields, before it subscribes.\<close>

definition fresh :: consumer where
  "fresh = \<lparr>is_running = True, current_topics = {}, retry_delay = 1, events = []\<rparr>"

definition polls :: "event list \<Rightarrow> nat" where
  "polls es = length (filter (\<lambda>e. e = Poll) es)"


section \<open>The fleet managers (producer\_manager.py, consumer\_manager.py)\<close>

subsection \<open>Configuration\<close>

text \<open>
  A configuration value; \<open>COpaque\<close> is a value \<open>json.dumps\<close> rejects. A dictionary is
  an association list: \<open>d[k] = v\<close> is \<open>AList.update k v d\<close>, \<open>d.get(k)\<close> is
  \<open>map_of d k\<close>, and \<open>d[k]\<close> raises \<open>KeyError\<close> where \<open>map_of d k\<close> is \<open>None\<close>.
\<close>

datatype cfgval =
    CStr string
  | CInt int
  | CFloat real
  | CBool bool
  | CList "cfgval list"
  | COpaque

type_synonym config = "(string \<times> cfgval) list"

text \<open>\<open>list(range(a, b))\<close>.\<close>

definition range_list :: "int \<Rightarrow> int \<Rightarrow> cfgval" where
  "range_list a b = CList (map CInt [a..b - 1])"

text \<open>\<open>d.update(other)\<close>.\<close>

definition dict_update :: "config \<Rightarrow> config \<Rightarrow> config" where
  "dict_update d other = fold (\<lambda>(k, v). AList.update k v) other d"

text \<open>
  An entry of \<open>cfg.vehicles\<close>: a name, or a \<open>DictConfig\<close> whose first key is the name
  and whose value under it holds the vehicle's own settings.
\<close>

datatype vehicle = VStr string | VDict "(string \<times> config) list"

text \<open>The part of \<open>cfg\<close> the managers read.\<close>

record cfg =
  vehicles :: "vehicle list"
  default_vehicle_config :: config
  default_consumer_config :: config
  kafka_topic_update_interval_secs :: cfgval
  logging_level :: string
  mode :: cfgval
  container_manager_port :: cfgval
  dashboard_port :: cfgval
  dashboard_proxy :: bool
  probe_metrics :: cfgval
  mitigation :: bool
  true_positive_reward :: cfgval
  false_positive_reward :: cfgval
  true_negative_reward :: cfgval
  false_negative_reward :: cfgval
  attack :: config
  override :: string
  input_dim :: cfgval
  output_dim :: cfgval
  h_dim :: cfgval
  num_layers :: cfgval
  layer_norm :: bool

text \<open>
  A container: \<open>ip_address\<close> is \<open>attrs['NetworkSettings']['IPAddress']\<close>, \<open>None\<close>
  when the lookup raises \<open>KeyError\<close>; Docker gives the empty string to a container
  that has no address on the default network.
\<close>

record container =
  ip_address :: "string option"

record producer_manager =
  pm_cfg :: cfg
  producers :: "(string \<times> container) list"
  containers_ips :: "(string \<times> string) list"
  vehicle_configs :: "(string \<times> config) list"
  vehicle_names :: "string list"

record consumer_manager =
  cm_cfg :: cfg
  consumers :: "(string \<times> container) list"
  cm_logging_level :: string
  consumer_configs :: "(string \<times> config) list"

text \<open>The two tests that end the loop body of \<open>ProducerManager.__init__\<close>.\<close>

definition producer_classes :: "config \<Rightarrow> config" where
  "producer_classes c =
     (let c1 = (if map_of c ''anomaly_classes'' = Some (CStr ''all'')
                then AList.update ''anomaly_classes'' (range_list 0 19) c else c)
      in if map_of c1 ''diagnostics_classes'' = Some (CStr ''all'')
         then AList.update ''diagnostics_classes'' (range_list 1 15) c1 else c1)"

text \<open>The loop of \<open>ProducerManager.__init__\<close> over \<open>cfg.vehicles\<close>.\<close>

fun producer_vehicles ::
  "config \<Rightarrow> vehicle list \<Rightarrow> (string \<times> config) list \<times> string list
     \<Rightarrow> exn + ((string \<times> config) list \<times> string list)" where
  "producer_vehicles dflt [] acc = Inr acc"
| "producer_vehicles dflt (VStr vehicle_name # vs) (configs, names) =
     producer_vehicles dflt vs
       (AList.update vehicle_name (producer_classes dflt) configs, names @ [vehicle_name])"
| "producer_vehicles dflt (VDict [] # vs) (configs, names) = Inl IndexError"
| "producer_vehicles dflt (VDict ((vehicle_name, own) # _) # vs) (configs, names) =
     producer_vehicles dflt vs
       (AList.update vehicle_name (producer_classes (dict_update dflt own)) configs,
        names @ [vehicle_name])"

definition ProducerManager ::
  "cfg \<Rightarrow> (string \<times> container) list \<Rightarrow> (string \<times> string) list \<Rightarrow> exn + producer_manager" where
  "ProducerManager c ps ips =
     (case producer_vehicles (default_vehicle_config c) (vehicles c) ([], []) of
        Inl x \<Rightarrow> Inl x
      | Inr (configs, names) \<Rightarrow>
          Inr \<lparr>pm_cfg = c, producers = ps, containers_ips = ips,
               vehicle_configs = configs, vehicle_names = names\<rparr>)"

text \<open>
  The two tests that end the loop body of \<open>ConsumerManager.__init__\<close>; each reads its
  key with \<open>[...]\<close>, so a configuration without the key raises \<open>KeyError\<close>.
\<close>

definition consumer_classes :: "config \<Rightarrow> exn + config" where
  "consumer_classes c =
     (case map_of c ''anomaly_classes'' of
        None \<Rightarrow> Inl KeyError
      | Some a \<Rightarrow>
          (let c1 = (if a = CStr ''all''
                     then AList.update ''anomaly_classes'' (range_list 1 19) c else c)
           in case map_of c1 ''diagnostics_classes'' of
                None \<Rightarrow> Inl KeyError
              | Some d \<Rightarrow>
                  Inr (if d = CStr ''all''
                       then AList.update ''diagnostics_classes'' (range_list 1 15) c1 else c1)))"

fun consumer_vehicles ::
  "config \<Rightarrow> vehicle list \<Rightarrow> (string \<times> config) list \<Rightarrow> exn + (string \<times> config) list" where
  "consumer_vehicles dflt [] configs = Inr configs"
| "consumer_vehicles dflt (VStr vehicle_name # vs) configs =
     (case consumer_classes dflt of
        Inl x \<Rightarrow> Inl x
      | Inr c \<Rightarrow> consumer_vehicles dflt vs (AList.update vehicle_name c configs))"
| "consumer_vehicles dflt (VDict [] # vs) configs = Inl IndexError"
| "consumer_vehicles dflt (VDict ((vehicle_name, own) # _) # vs) configs =
     (case consumer_classes (dict_update dflt own) of
        Inl x \<Rightarrow> Inl x
      | Inr c \<Rightarrow> consumer_vehicles dflt vs (AList.update vehicle_name c configs))"

text \<open>\<open>s.upper()\<close> on ASCII letters.\<close>

definition upper :: "string \<Rightarrow> string" where
  "upper s = map (\<lambda>c. let n = (of_char c :: nat) in
                       if 97 \<le> n \<and> n \<le> 122 then char_of (n - 32) else c) s"

text \<open>
  \<open>self.default_consumer_config\<close>: the configured defaults and the topic update
  interval.
\<close>

definition consumer_default :: "cfg \<Rightarrow> config" where
  "consumer_default c =
     AList.update ''kafka_topic_update_interval_secs''
       (kafka_topic_update_interval_secs c) (default_consumer_config c)"

definition ConsumerManager :: "cfg \<Rightarrow> (string \<times> container) list \<Rightarrow> exn + consumer_manager" where
  "ConsumerManager c cs =
     (case consumer_vehicles (consumer_default c) (vehicles c) [] of
        Inl x \<Rightarrow> Inl x
      | Inr configs \<Rightarrow>
          Inr \<lparr>cm_cfg = c, consumers = cs, cm_logging_level = upper (logging_level c),
               consumer_configs = configs\<rparr>)"

text \<open>The name a vehicle entry goes by, and its template: the defaults with its own settings on top.\<close>

definition vehicle_name_of :: "vehicle \<Rightarrow> string option" where
  "vehicle_name_of v = (case v of VStr n \<Rightarrow> Some n | VDict [] \<Rightarrow> None | VDict ((n, _) # _) \<Rightarrow> Some n)"

definition template :: "config \<Rightarrow> vehicle \<Rightarrow> config" where
  "template dflt v = (case v of VDict ((_, own) # _) \<Rightarrow> dict_update dflt own | _ \<Rightarrow> dflt)"

text \<open>The value a manager holds for a vehicle under a key, if it holds one.\<close>

definition resolved :: "(string \<times> config) list \<Rightarrow> string \<Rightarrow> string \<Rightarrow> cfgval option" where
  "resolved configs vehicle_name key =
     (case map_of configs vehicle_name of None \<Rightarrow> None | Some c \<Rightarrow> map_of c key)"


subsection \<open>The network and the clock\<close>

text \<open>
  \<open>clock\<close> is what \<open>time.time()\<close> reads, in whole seconds; \<open>journal\<close> records, in
  order, every HTTP request (with the time it is issued at), every sleep and every log
  line. The network is a function: asked at time \<open>t\<close> with a verb and a URL, it
  tells how long the call takes and what comes back, an exception or a response with
  its status and what \<open>.json()\<close> makes of its body.
\<close>

datatype verb = GET | POST

datatype body = Unparsable | JsonDict "string list" | JsonOther

datatype reply = Raises exn | Response nat body

type_synonym network = "nat \<Rightarrow> verb \<Rightarrow> string \<Rightarrow> nat \<times> reply"

datatype action = Request nat verb string | Wait nat | Report level string

record world =
  clock :: nat
  journal :: "action list"

definition request :: "network \<Rightarrow> verb \<Rightarrow> string \<Rightarrow> world \<Rightarrow> reply \<times> world" where
  "request net m url w =
     (snd (net (clock w) m url),
      w\<lparr>clock := clock w + fst (net (clock w) m url),
        journal := journal w @ [Request (clock w) m url]\<rparr>)"

definition sleep :: "nat \<Rightarrow> world \<Rightarrow> world" where
  "sleep n w = w\<lparr>clock := clock w + n, journal := journal w @ [Wait n]\<rparr>"

definition report :: "level \<Rightarrow> string \<Rightarrow> world \<Rightarrow> world" where
  "report l m w = w\<lparr>journal := journal w @ [Report l m]\<rparr>"

text \<open>
  \<open>Response.raise_for_status\<close> of \<open>requests\<close> raises \<open>HTTPError\<close> for a status from 400
  to 599 and for no other; \<open>Response.ok\<close> is true when it does not raise.
\<close>

definition raises_for_status :: "nat \<Rightarrow> bool" where
  "raises_for_status status = (400 \<le> status \<and> status < 600)"

definition ok :: "nat \<Rightarrow> bool" where
  "ok status = (\<not> raises_for_status status)"

text \<open>Which exceptions are instances of \<open>requests.exceptions.RequestException\<close>.\<close>

definition request_exception :: "exn \<Rightarrow> bool" where
  "request_exception x = (x = ConnectionError \<or> x = Timeout \<or> x = HTTPError)"

text \<open>A call followed by \<open>raise_for_status\<close>: the exception that leaves the pair, if one does.\<close>

definition checked :: "reply \<Rightarrow> exn option" where
  "checked r =
     (case r of
        Raises x \<Rightarrow> Some x
      | Response status _ \<Rightarrow> if raises_for_status status then Some HTTPError else None)"

text \<open>\<open>name.split('_')[0]\<close>.\<close>

definition first_field :: "string \<Rightarrow> string" where
  "first_field name = takeWhile (\<lambda>c. c \<noteq> CHR ''_'') name"

text \<open>
  What a start or a stop hands back for one worker: the managers build a sentence around
  the worker's name, \<open>started successfully\<close>, \<open>stopped successfully\<close>, or
  \<open>Failed to start\<close> and \<open>Failed to stop\<close> with the reason after a colon.
\<close>

datatype reason = NoContainerIP | NotHealthy | NotSerializable | Raised exn

datatype outcome =
    Started string
  | Failed string reason
  | Stopped string
  | StopFailed string reason

definition worker :: "outcome \<Rightarrow> string" where
  "worker r = (case r of Started n \<Rightarrow> n | Failed n _ \<Rightarrow> n | Stopped n \<Rightarrow> n | StopFailed n _ \<Rightarrow> n)"

subsection \<open>The health probes\<close>

text \<open>
  One poll of \<open>ProducerManager._wait_for_health\<close>: the body of its \<open>try\<close>, up to the
  sleep. \<open>Inr True\<close> is the \<open>return True\<close>, \<open>Inr False\<close> a poll that found the
  worker not ready, \<open>Inl x\<close> an exception that is not a \<open>RequestException\<close> and so
  leaves the function.
\<close>

definition producer_markers :: "string list" where
  "producer_markers = [''running'', ''config_loaded'', ''vehicle'']"

definition consumer_markers :: "string list" where
  "consumer_markers = [''running'', ''configured'']"

definition has_marker :: "string list \<Rightarrow> body \<Rightarrow> bool" where
  "has_marker markers b =
     (case b of JsonDict keys \<Rightarrow> list_ex (\<lambda>k. k \<in> set keys) markers | _ \<Rightarrow> False)"

definition producer_health_poll :: "network \<Rightarrow> string \<Rightarrow> world \<Rightarrow> (exn + bool) \<times> world" where
  "producer_health_poll net api_url w =
     (case request net GET (api_url @ ''/health'') w of
        (Raises x, w1) \<Rightarrow>
          if request_exception x
          then (Inr False, report DEBUG ''Health check request failed'' w1)
          else (Inl x, w1)
      | (Response status b, w1) \<Rightarrow>
          if ok status
          then (case b of
                  Unparsable \<Rightarrow> (Inr False, report DEBUG ''Failed to parse health response'' w1)
                | _ \<Rightarrow>
                    if has_marker producer_markers b
                    then (Inr True, report INFO ''Health check passed'' w1)
                    else (Inr False,
                          report DEBUG ''Health check response doesn't look like producer API'' w1))
          else (Inr False, report DEBUG ''Health check failed with status'' w1))"

lemma clock_producer_health_poll:
  "clock w \<le> clock (snd (producer_health_poll net api_url w))"
  by (simp add: producer_health_poll_def request_def report_def split: reply.splits body.splits)

text \<open>The \<open>while time.time() < deadline\<close> loop; \<open>poll_interval_seconds\<close> is 2 at every call.\<close>

function producer_health_loop ::
  "network \<Rightarrow> string \<Rightarrow> nat \<Rightarrow> world \<Rightarrow> (exn + bool) \<times> world" where
  "producer_health_loop net api_url deadline w =
     (if clock w < deadline
      then (case producer_health_poll net api_url w of
              (r, w1) \<Rightarrow>
                if r = Inr False then producer_health_loop net api_url deadline (sleep 2 w1)
                else (r, w1))
      else (Inr False, report ERROR ''Health check timed out or not producer API'' w))"
  by pat_completeness auto
termination
proof (relation "measure (\<lambda>(net, api_url, deadline, w). deadline - clock w)")
  show "wf (measure (\<lambda>(net, api_url, deadline, w). deadline - clock w))"
    by simp
next
  fix net :: network and api_url :: string and deadline :: nat and w x1 w1
  assume "clock w < deadline" and "(x1, w1) = producer_health_poll net api_url w"
    and "x1 = Inr False"
  then have "clock w \<le> clock w1"
    using clock_producer_health_poll [of w net api_url] by (metis snd_conv)
  with \<open>clock w < deadline\<close>
  show "((net, api_url, deadline, sleep 2 w1), (net, api_url, deadline, w))
          \<in> measure (\<lambda>(net, api_url, deadline, w). deadline - clock w)"
    by (simp add: sleep_def)
qed

definition producer_wait_for_health ::
  "network \<Rightarrow> string \<Rightarrow> nat \<Rightarrow> world \<Rightarrow> (exn + bool) \<times> world" where
  "producer_wait_for_health net api_url overall_timeout_seconds w =
     producer_health_loop net api_url (clock w + overall_timeout_seconds) w"

text \<open>
  One poll of the \<open>wait_for_health\<close> that \<open>start_consumer\<close> defines: whatever is
  raised is passed over.
\<close>

definition consumer_health_poll :: "network \<Rightarrow> string \<Rightarrow> world \<Rightarrow> bool \<times> world" where
  "consumer_health_poll net base_url w =
     (case request net GET (base_url @ ''/health'') w of
        (Raises x, w1) \<Rightarrow> (False, w1)
      | (Response status b, w1) \<Rightarrow> (ok status \<and> has_marker consumer_markers b, w1))"

lemma clock_consumer_health_poll:
  "clock w \<le> clock (snd (consumer_health_poll net base_url w))"
  by (simp add: consumer_health_poll_def request_def split: reply.splits)

function consumer_health_loop :: "network \<Rightarrow> string \<Rightarrow> nat \<Rightarrow> world \<Rightarrow> bool \<times> world" where
  "consumer_health_loop net base_url deadline w =
     (if clock w < deadline
      then (case consumer_health_poll net base_url w of
              (r, w1) \<Rightarrow>
                if r then (True, w1)
                else consumer_health_loop net base_url deadline (sleep 2 w1))
      else (False, w))"
  by pat_completeness auto
termination
proof (relation "measure (\<lambda>(net, base_url, deadline, w). deadline - clock w)")
  show "wf (measure (\<lambda>(net, base_url, deadline, w). deadline - clock w))"
    by simp
next
  fix net :: network and base_url :: string and deadline :: nat and w x1 w1
  assume "clock w < deadline" and "(x1, w1) = consumer_health_poll net base_url w"
    and "\<not> x1"
  then have "clock w \<le> clock w1"
    using clock_consumer_health_poll [of w net base_url] by (metis snd_conv)
  with \<open>clock w < deadline\<close>
  show "((net, base_url, deadline, sleep 2 w1), (net, base_url, deadline, w))
          \<in> measure (\<lambda>(net, base_url, deadline, w). deadline - clock w)"
    by (simp add: sleep_def)
qed

definition wait_for_health :: "network \<Rightarrow> string \<Rightarrow> nat \<Rightarrow> world \<Rightarrow> bool \<times> world" where
  "wait_for_health net base_url timeout w =
     (let w1 = sleep 2 w in consumer_health_loop net base_url (clock w1 + timeout) w1)"


subsection \<open>Starting producers\<close>

text \<open>\<open>d.get(k, default)\<close>.\<close>

definition get_or :: "config \<Rightarrow> string \<Rightarrow> cfgval \<Rightarrow> cfgval" where
  "get_or d k dflt = (case map_of d k of Some v \<Rightarrow> v | None \<Rightarrow> dflt)"

text \<open>
  \<open>_build_config_data\<close>. The values of the model are plain already, so
  \<open>_convert_to_json_serializable\<close> leaves each as it is.
\<close>

definition build_config_data :: "producer_manager \<Rightarrow> config \<Rightarrow> string \<Rightarrow> config" where
  "build_config_data pm vehicle_config vehicle_name =
     (let attack_config = attack (pm_cfg pm) in
      [(''vehicle_name'', CStr vehicle_name),
       (''kafka_broker'', get_or vehicle_config ''kafka_broker'' (CStr ''kafka:9092'')),
       (''logging_level'', CStr (logging_level (pm_cfg pm))),
       (''manager_port'', container_manager_port (pm_cfg pm)),
       (''mode'', mode (pm_cfg pm)),
       (''target_ip'', get_or attack_config ''target_ip'' (CStr ''172.18.0.4'')),
       (''target_port'', get_or attack_config ''target_port'' (CInt 80)),
       (''bot_port'', get_or attack_config ''bot_port'' (CInt 5002)),
       (''probe_frequency_seconds'', get_or vehicle_config ''probe_frequency_seconds'' (CInt 2)),
       (''ping_thread_timeout'', get_or vehicle_config ''ping_thread_timeout'' (CInt 5)),
       (''ping_host'', get_or vehicle_config ''ping_host'' (CStr ''www.google.com'')),
       (''duration'', get_or attack_config ''duration'' (CInt 0)),
       (''packet_size'', get_or attack_config ''packet_size'' (CInt 1024)),
       (''delay'', get_or attack_config ''delay'' (CFloat (1 / 1000))),
       (''mu_anomalies'', get_or vehicle_config ''mu_anomalies'' (CInt 157)),
       (''mu_normal'', get_or vehicle_config ''mu_normal'' (CInt 115)),
       (''alpha'', get_or vehicle_config ''alpha'' (CFloat (2 / 10))),
       (''beta'', get_or vehicle_config ''beta'' (CFloat (19 / 10))),
       (''time_emulation'', get_or vehicle_config ''time_emulation'' (CBool False)),
       (''probe_metrics'', probe_metrics (pm_cfg pm)),
       (''anomaly_classes'', get_or vehicle_config ''anomaly_classes'' (range_list 0 19)),
       (''diagnostics_classes'', get_or vehicle_config ''diagnostics_classes'' (range_list 0 15))])"

text \<open>Whether \<open>json.dumps\<close> takes the value.\<close>

fun serializable :: "cfgval \<Rightarrow> bool" where
  "serializable COpaque = False"
| "serializable (CList xs) = list_all serializable xs"
| "serializable _ = True"

text \<open>The \<open>for candidate in (hostname_url, ip_url)\<close> loop of \<open>start_producer\<close>.\<close>

fun first_healthy :: "network \<Rightarrow> string list \<Rightarrow> world \<Rightarrow> (exn + string option) \<times> world" where
  "first_healthy net [] w = (Inr None, w)"
| "first_healthy net (candidate # rest) w =
     (case producer_wait_for_health net candidate 20 w of
        (Inl x, w1) \<Rightarrow> (Inl x, w1)
      | (Inr True, w1) \<Rightarrow> (Inr (Some candidate), w1)
      | (Inr False, w1) \<Rightarrow> first_healthy net rest w1)"

text \<open>
  The two POSTs both managers make once an address is chosen, each followed by
  \<open>raise_for_status\<close>: \<open>/configure\<close>, then \<open>/start\<close>. The result is the exception that
  ends the sequence, if one does.
\<close>

definition configure_then_start :: "network \<Rightarrow> string \<Rightarrow> world \<Rightarrow> exn option \<times> world" where
  "configure_then_start net api_url w =
     (case request net POST (api_url @ ''/configure'') w of
        (config_response, w2) \<Rightarrow>
          (case checked config_response of
             Some x \<Rightarrow> (Some x, w2)
           | None \<Rightarrow>
               (case request net POST (api_url @ ''/start'') w2 of
                  (start_response, w3) \<Rightarrow> (checked start_response, w3))))"

text \<open>Both \<open>except\<close> clauses of \<open>start_producer\<close> do the same.\<close>

definition producer_start_failed :: "string \<Rightarrow> exn \<Rightarrow> world \<Rightarrow> outcome \<times> world" where
  "producer_start_failed producer_name x w =
     (Failed producer_name (Raised x), report ERROR ''Failed to start producer'' w)"

definition start_producer ::
  "producer_manager \<Rightarrow> network \<Rightarrow> string \<Rightarrow> config \<Rightarrow> world \<Rightarrow> outcome \<times> world" where
  "start_producer pm net producer_name vehicle_config w =
     (case map_of (containers_ips pm) producer_name of
        None \<Rightarrow> (Failed producer_name NoContainerIP, w)
      | Some container_ip \<Rightarrow>
          if container_ip = [] then (Failed producer_name NoContainerIP, w)
          else
            (let hostname_url = ''http://'' @ producer_name @ '':5000'';
                 ip_url = ''http://'' @ container_ip @ '':5000''
             in case first_healthy net [hostname_url, ip_url] w of
                  (Inl x, w1) \<Rightarrow> producer_start_failed producer_name x w1
                | (Inr None, w1) \<Rightarrow>
                    (Failed producer_name NotHealthy,
                     report ERROR ''Failed to start producer: API not healthy'' w1)
                | (Inr (Some api_url), w1) \<Rightarrow>
                    (let config_data =
                           build_config_data pm vehicle_config (first_field producer_name)
                     in if \<not> list_all (\<lambda>(k, v). serializable v) config_data
                        then (Failed producer_name NotSerializable,
                              fold (\<lambda>_. report ERROR ''Non-serializable key'')
                                (filter (\<lambda>(k, v). \<not> serializable v) config_data)
                                (report ERROR ''Config data keys''
                                   (report ERROR ''JSON serialization failed'' w1)))
                        else
                          (case configure_then_start net api_url w1 of
                             (Some x, w3) \<Rightarrow> producer_start_failed producer_name x w3
                           | (None, w3) \<Rightarrow>
                               (case request net GET (api_url @ ''/status'') w3 of
                                  (status_response, w4) \<Rightarrow>
                                    (case checked status_response of
                                       Some x \<Rightarrow> producer_start_failed producer_name x w4
                                     | None \<Rightarrow>
                                         (Started producer_name,
                                          report INFO ''Producer started successfully''
                                            w4)))))))"

text \<open>
  The loop of \<open>start_all_producers\<close> over
  \<open>zip(self.producers.keys(), self.vehicle_names)\<close>. The lookup
  \<open>self.vehicle_configs[vehicle_name]\<close> stands outside every \<open>try\<close>.
\<close>

fun start_producers ::
  "producer_manager \<Rightarrow> network \<Rightarrow> (string \<times> string) list \<Rightarrow> world
     \<Rightarrow> (exn + outcome list) \<times> world" where
  "start_producers pm net [] w = (Inr [], w)"
| "start_producers pm net ((producer_name, vehicle_name) # rest) w =
     (case map_of (vehicle_configs pm) vehicle_name of
        None \<Rightarrow> (Inl KeyError, w)
      | Some vehicle_config \<Rightarrow>
          (case start_producer pm net producer_name vehicle_config w of
             (result, w1) \<Rightarrow>
               (case start_producers pm net rest w1 of
                  (Inl x, w2) \<Rightarrow> (Inl x, w2)
                | (Inr results, w2) \<Rightarrow> (Inr (result # results), w2))))"

definition start_all_producers ::
  "producer_manager \<Rightarrow> network \<Rightarrow> world \<Rightarrow> (exn + string \<times> outcome list) \<times> world" where
  "start_all_producers pm net w =
     (case start_producers pm net (zip (map fst (producers pm)) (vehicle_names pm)) w of
        (Inl x, w1) \<Rightarrow> (Inl x, w1)
      | (Inr results, w1) \<Rightarrow> (Inr (''All producers started!'', results), w1))"

subsection \<open>Starting consumers\<close>

text \<open>The entries of \<open>cfg_payload\<close> read from the vehicle's configuration with \<open>[...]\<close>.\<close>

definition consumer_keys :: "string list" where
  "consumer_keys =
     [''kafka_broker'', ''buffer_size'', ''batch_size'', ''weights_push_freq_seconds'',
      ''weights_pull_freq_seconds'', ''kafka_topic_update_interval_secs'', ''learning_rate'',
      ''epoch_size'', ''dropout'', ''optimizer'', ''training_freq_seconds'',
      ''save_model_freq_epochs'']"

fun items :: "config \<Rightarrow> string list \<Rightarrow> exn + config" where
  "items c [] = Inr []"
| "items c (k # ks) =
     (case map_of c k of
        None \<Rightarrow> Inl KeyError
      | Some v \<Rightarrow> (case items c ks of Inl x \<Rightarrow> Inl x | Inr r \<Rightarrow> Inr ((k, v) # r)))"

text \<open>
  \<open>cfg_payload\<close>, the entries read from the vehicle's configuration first. The settings
  read from \<open>self.cfg\<close> are taken as of the type the conversions \<open>str\<close>, \<open>int\<close> and
  \<open>float\<close> around them give.
\<close>

definition cfg_payload :: "consumer_manager \<Rightarrow> config \<Rightarrow> string \<Rightarrow> exn + config" where
  "cfg_payload cm consumer_config vehicle_name =
     (case items consumer_config consumer_keys of
        Inl x \<Rightarrow> Inl x
      | Inr own \<Rightarrow>
          Inr (own @
            [(''logging_level'', CStr (cm_logging_level cm)),
             (''input_dim'', input_dim (cm_cfg cm)),
             (''output_dim'', output_dim (cm_cfg cm)),
             (''h_dim'', h_dim (cm_cfg cm)),
             (''num_layers'', num_layers (cm_cfg cm)),
             (''model_saving_path'',
                CStr (vehicle_name @ ''_'' @ override (cm_cfg cm) @ ''_model.pth'')),
             (''probe_metrics'', probe_metrics (cm_cfg cm)),
             (''mode'', mode (cm_cfg cm)),
             (''manager_port'', dashboard_port (cm_cfg cm)),
             (''true_positive_reward'', true_positive_reward (cm_cfg cm)),
             (''false_positive_reward'', false_positive_reward (cm_cfg cm)),
             (''true_negative_reward'', true_negative_reward (cm_cfg cm)),
             (''false_negative_reward'', false_negative_reward (cm_cfg cm))]
            @ (if mitigation (cm_cfg cm) then [(''mitigation'', CBool True)] else [])
            @ (if dashboard_proxy (cm_cfg cm) then [(''no_proxy_host'', CBool True)] else [])
            @ (if layer_norm (cm_cfg cm) then [(''layer_norm'', CBool True)] else [])))"

text \<open>The \<open>except Exception\<close> clause of \<open>start_consumer\<close>.\<close>

definition consumer_start_failed :: "string \<Rightarrow> exn \<Rightarrow> world \<Rightarrow> outcome \<times> world" where
  "consumer_start_failed consumer_name x w =
     (Failed consumer_name (Raised x), report ERROR ''Failed to start consumer'' w)"

text \<open>
  \<open>api_url = hostname_url if wait_for_health(hostname_url) else
  (ip_url if wait_for_health(ip_url) else None)\<close>.
\<close>

definition consumer_api_url ::
  "network \<Rightarrow> string \<Rightarrow> string \<Rightarrow> world \<Rightarrow> string option \<times> world" where
  "consumer_api_url net hostname_url ip_url w =
     (case wait_for_health net hostname_url 60 w of
        (True, w1) \<Rightarrow> (Some hostname_url, w1)
      | (False, w1) \<Rightarrow>
          (case wait_for_health net ip_url 60 w1 of
             (True, w2) \<Rightarrow> (Some ip_url, w2)
           | (False, w2) \<Rightarrow> (None, w2)))"

definition start_consumer ::
  "consumer_manager \<Rightarrow> network \<Rightarrow> string \<Rightarrow> container \<Rightarrow> world \<Rightarrow> outcome \<times> world" where
  "start_consumer cm net consumer_name consumer_container w =
     (let vehicle_name = first_field consumer_name in
      case map_of (consumer_configs cm) vehicle_name of
        None \<Rightarrow> consumer_start_failed consumer_name KeyError w
      | Some consumer_config \<Rightarrow>
          (case ip_address consumer_container of
             None \<Rightarrow> consumer_start_failed consumer_name KeyError w
           | Some container_ip \<Rightarrow>
               (let hostname_url = ''http://'' @ consumer_name @ '':5000'';
                    ip_url = ''http://'' @ container_ip @ '':5000''
                in case consumer_api_url net hostname_url ip_url w of
                     (None, w1) \<Rightarrow> (Failed consumer_name NotHealthy, w1)
                   | (Some api_url, w1) \<Rightarrow>
                       (case cfg_payload cm consumer_config vehicle_name of
                          Inl x \<Rightarrow> consumer_start_failed consumer_name x w1
                        | Inr payload \<Rightarrow>
                            if \<not> list_all (\<lambda>(k, v). serializable v) payload
                            then consumer_start_failed consumer_name TypeError w1
                            else
                              (case configure_then_start net api_url w1 of
                                 (Some x, w3) \<Rightarrow> consumer_start_failed consumer_name x w3
                               | (None, w3) \<Rightarrow>
                                   (Started consumer_name,
                                    report INFO ''Consumer started successfully'' w3))))))"

fun start_consumers ::
  "consumer_manager \<Rightarrow> network \<Rightarrow> (string \<times> container) list \<Rightarrow> world
     \<Rightarrow> outcome list \<times> world" where
  "start_consumers cm net [] w = ([], w)"
| "start_consumers cm net ((consumer_name, c) # rest) w =
     (case start_consumer cm net consumer_name c w of
        (result, w1) \<Rightarrow>
          (case start_consumers cm net rest w1 of
             (results, w2) \<Rightarrow> (result # results, w2)))"

definition start_all_consumers ::
  "consumer_manager \<Rightarrow> network \<Rightarrow> world \<Rightarrow> (string \<times> outcome list) \<times> world" where
  "start_all_consumers cm net w =
     (case start_consumers cm net (consumers cm) w of
        (results, w1) \<Rightarrow> ((''All consumers started!'', results), w1))"

subsection \<open>Stopping\<close>







subsection \<open>Notions the properties are stated with\<close>

text \<open>What was added to the journal between two worlds.\<close>

definition since :: "world \<Rightarrow> world \<Rightarrow> action list" where
  "since w w' = drop (length (journal w)) (journal w')"

text \<open>A reply the probe takes for the worker's own: \<open>ok\<close>, and a dictionary with a marker key.\<close>

definition healthy :: "string list \<Rightarrow> reply \<Rightarrow> bool" where
  "healthy markers r =
     (case r of Response status b \<Rightarrow> ok status \<and> has_marker markers b | Raises _ \<Rightarrow> False)"

text \<open>The time at which the reply to a request issued at \<open>t\<close> is in.\<close>

definition arrival :: "network \<Rightarrow> nat \<Rightarrow> verb \<Rightarrow> string \<Rightarrow> nat" where
  "arrival net t m url = t + fst (net t m url)"

text \<open>
  A journal of probing one address: its requests are GETs of that address's health
  endpoint, issued from \<open>start\<close> on and before the deadline.
\<close>

definition polls_of :: "string \<Rightarrow> nat \<Rightarrow> nat \<Rightarrow> action list \<Rightarrow> bool" where
  "polls_of url start deadline js =
     list_all (\<lambda>a. case a of
                     Request t m u \<Rightarrow> m = GET \<and> u = url @ ''/health'' \<and> start \<le> t \<and> t < deadline
                   | _ \<Rightarrow> True) js"

text \<open>The requests of a journal, in order, without the times.\<close>

definition requests :: "action list \<Rightarrow> (verb \<times> string) list" where
  "requests js = concat (map (\<lambda>a. case a of Request t m u \<Rightarrow> [(m, u)] | _ \<Rightarrow> []) js)"

text \<open>The POSTs of a journal, in order: when each was issued and to which URL.\<close>

definition posts :: "action list \<Rightarrow> (nat \<times> string) list" where
  "posts js =
     concat (map (\<lambda>a. case a of Request t m u \<Rightarrow> if m = POST then [(t, u)] else []
                        | _ \<Rightarrow> []) js)"

text \<open>
  The policy of the two POSTs, said of the POSTs \<open>ps\<close> of a start and of its outcome
  for the worker \<open>n\<close>: a POST to \<open>/start\<close> comes second, right after a POST to
  \<open>/configure\<close> of the same address that raised nothing; a POST to \<open>/configure\<close> that
  raised is the only POST and the outcome is that failure; a POST to \<open>/start\<close> that
  raised gives that failure; and the outcome is success only after both POSTs, neither
  of which raised.
\<close>

definition post_policy :: "network \<Rightarrow> (nat \<times> string) list \<Rightarrow> outcome \<Rightarrow> string \<Rightarrow> bool" where
  "post_policy net ps result n =
     ((\<forall>t u. (t, u @ ''/start'') \<in> set ps
          \<longrightarrow> (\<exists>t0. ps = [(t0, u @ ''/configure''), (t, u @ ''/start'')]
                 \<and> checked (snd (net t0 POST (u @ ''/configure''))) = None))
      \<and> (\<forall>t0 u x. (t0, u @ ''/configure'') \<in> set ps
             \<and> checked (snd (net t0 POST (u @ ''/configure''))) = Some x
          \<longrightarrow> ps = [(t0, u @ ''/configure'')] \<and> result = Failed n (Raised x))
      \<and> (\<forall>t u x. (t, u @ ''/start'') \<in> set ps
             \<and> checked (snd (net t POST (u @ ''/start''))) = Some x
          \<longrightarrow> result = Failed n (Raised x))
      \<and> (result = Started n
          \<longrightarrow> (\<exists>t0 t u. ps = [(t0, u @ ''/configure''), (t, u @ ''/start'')]
                 \<and> checked (snd (net t0 POST (u @ ''/configure''))) = None
                 \<and> checked (snd (net t POST (u @ ''/start''))) = None)))"

text \<open>A configuration and a world to try the definitions on.\<close>

definition demo_cfg :: cfg where
  "demo_cfg =
     \<lparr>vehicles = [VStr ''v1'', VDict [(''v2'', [(''anomaly_classes'', CList [CInt 3])])]],
      default_vehicle_config =
        [(''anomaly_classes'', CStr ''all''), (''diagnostics_classes'', CStr ''all'')],
      default_consumer_config =
        [(''anomaly_classes'', CStr ''all''), (''diagnostics_classes'', CStr ''all''),
         (''kafka_broker'', CStr ''kafka:9092''), (''buffer_size'', CInt 10000),
         (''batch_size'', CInt 32), (''weights_push_freq_seconds'', CInt 300),
         (''weights_pull_freq_seconds'', CInt 300), (''learning_rate'', CFloat (1 / 1000)),
         (''epoch_size'', CInt 50), (''dropout'', CFloat (1 / 10)),
         (''optimizer'', CStr ''Adam''), (''training_freq_seconds'', CInt 1),
         (''save_model_freq_epochs'', CInt 10)],
      kafka_topic_update_interval_secs = CInt 30,
      logging_level = ''info'',
      mode = CStr ''OF'',
      container_manager_port = CInt 5000,
      dashboard_port = CInt 5000,
      dashboard_proxy = False,
      probe_metrics = CList [CStr ''RTT''],
      mitigation = False,
      true_positive_reward = CFloat 1,
      false_positive_reward = CFloat 0,
      true_negative_reward = CFloat 1,
      false_negative_reward = CFloat 0,
      attack = [],
      override = ''run'',
      input_dim = CInt 59,
      output_dim = CInt 1,
      h_dim = CInt 128,
      num_layers = CInt 3,
      layer_norm = False\<rparr>"

text \<open>The consumer manager built from \<open>demo_cfg\<close> for the one consumer \<open>v1_consumer\<close>.\<close>

definition demo_consumers :: consumer_manager where
  "demo_consumers =
     \<lparr>cm_cfg = demo_cfg,
      consumers = [(''v1_consumer'', \<lparr>ip_address = Some ''172.18.0.5''\<rparr>)],
      cm_logging_level = ''INFO'',
      consumer_configs =
        [(''v1'',
          [(''anomaly_classes'', range_list 1 19), (''diagnostics_classes'', range_list 1 15),
           (''kafka_broker'', CStr ''kafka:9092''), (''buffer_size'', CInt 10000),
           (''batch_size'', CInt 32), (''weights_push_freq_seconds'', CInt 300),
           (''weights_pull_freq_seconds'', CInt 300), (''learning_rate'', CFloat (1 / 1000)),
           (''epoch_size'', CInt 50), (''dropout'', CFloat (1 / 10)),
           (''optimizer'', CStr ''Adam''), (''training_freq_seconds'', CInt 1),
           (''save_model_freq_epochs'', CInt 10),
           (''kafka_topic_update_interval_secs'', CInt 30)]),
         (''v2'',
          [(''anomaly_classes'', CList [CInt 3]), (''diagnostics_classes'', range_list 1 15),
           (''kafka_broker'', CStr ''kafka:9092''), (''buffer_size'', CInt 10000),
           (''batch_size'', CInt 32), (''weights_push_freq_seconds'', CInt 300),
           (''weights_pull_freq_seconds'', CInt 300), (''learning_rate'', CFloat (1 / 1000)),
           (''epoch_size'', CInt 50), (''dropout'', CFloat (1 / 10)),
           (''optimizer'', CStr ''Adam''), (''training_freq_seconds'', CInt 1),
           (''save_model_freq_epochs'', CInt 10),
           (''kafka_topic_update_interval_secs'', CInt 30)])]\<rparr>"

definition start_of_time :: world where
  "start_of_time = \<lparr>clock = 0, journal = []\<rparr>"

text \<open>
  Networks to try the definitions on. In \<open>late_reply\<close> every call takes four seconds
  and the worker answers 503 until second 18, then as a healthy producer. In
  \<open>host_down\<close> every call takes ten seconds, nothing answers under a name, and the address
  172.18.0.5 answers every call as a healthy worker.
\<close>

definition late_reply :: network where
  "late_reply t m url =
     (4, if t < 18 then Response 503 Unparsable else Response 200 (JsonDict [''running'']))"

text \<open>
  In \<open>not_modified\<close> every call takes a second; a health check is answered by a
  healthy worker, \<open>/configure\<close> with status 304 and every other call with 200.
\<close>

definition not_modified :: network where
  "not_modified t m url =
     (1, if m = GET then Response 200 (JsonDict [''running'', ''configured''])
         else if url = ''http://v1_consumer:5000/configure'' then Response 304 Unparsable
         else Response 200 Unparsable)"

text \<open>
  In \<open>address_down\<close> every call takes a second; a worker answers every call under its
  name, and nothing answers at a numeric address.
\<close>

definition address_down :: network where
  "address_down t m url =
     (1, if take 8 url = ''http://v'' then Response 200 (JsonDict [''running''])
         else Raises ConnectionError)"

definition host_down :: network where
  "host_down t m url =
     (10, if take 23 url = ''http://172.18.0.5:5000/''
         then Response 200 (JsonDict [''running'']) else Raises ConnectionError)"





section \<open>Properties of the stream consumer\<close>

lemma events_emit: "events (emit e s) = events s @ [e]"
  by (simp add: emit_def)

lemma events_logger: "events (logger l m s) = events s @ [Log l m]"
  by (simp add: logger_def emit_def)

lemma current_topics_emit: "current_topics (emit e s) = current_topics s"
  by (simp add: emit_def)

lemma current_topics_logger: "current_topics (logger l m s) = current_topics s"
  by (simp add: logger_def emit_def)

lemma retry_delay_emit: "retry_delay (emit e s) = retry_delay s"
  by (simp add: emit_def)

lemma retry_delay_logger: "retry_delay (logger l m s) = retry_delay s"
  by (simp add: logger_def emit_def)

lemma subscriptions_append: "subscriptions (xs @ ys) = subscriptions xs + subscriptions ys"
  by (simp add: subscriptions_def)

lemma subscriptions_single:
  "subscriptions [e] = (case e of Subscribe _ \<Rightarrow> 1 | _ \<Rightarrow> 0)"
  by (simp add: subscriptions_def split: event.splits)

subsection \<open>Topic refresh\<close>

text \<open>
  C2, as stated, fails: the claim has \<open>topic_update\<close> hand the newly observed topics
  back to its caller. With an empty snapshot and a broker that lists the one topic
  \<open>v1_anomalies\<close>, the difference is that topic, and the call hands back \<open>None\<close>.
\<close>

theorem topic_update_hands_back_none:
  "fst (topic_update (Some {''v1_anomalies''}) Accepted fresh) = Inr PyNone
   \<and> fst (topic_update (Some {''v1_anomalies''}) Accepted fresh)
       \<noteq> Inr (PyTopics ({''v1_anomalies''} - current_topics fresh))"
  by (simp add: topic_update_def subscribe_def fresh_def emit_def logger_def Let_def)

text \<open>
  C2, amended. Whenever the broker gives its listing: the snapshot afterwards is the
  listing itself, whatever it was before. What the call does, in order: it asks the
  broker for the listing; when the listing has a topic the old snapshot lacks, it logs
  the \<open>New topics\<close> line at level DEBUG and subscribes with the fixed list of the three
  patterns, after which \<open>subscribe\<close> logs how that went (nothing, when the broker
  raised what it does not catch); when the listing has no such topic, it does nothing
  more. So one subscription is issued when there is a new topic and none otherwise. The
  call hands back \<open>None\<close> (or lets through what the subscription raises), never the
  set of new topics. A second call on the same listing only asks for the listing: it
  logs nothing and issues no subscription.
\<close>

theorem topic_update_refresh:
  "current_topics (snd (topic_update (Some listing) ans s)) = listing
   \<and> events (snd (topic_update (Some listing) ans s))
       = events s @ ListTopics
           # (if listing - current_topics s = {} then []
              else Log DEBUG ''New topics'' # Subscribe patterns
                   # (case ans of
                        Accepted \<Rightarrow> [Log DEBUG ''(Re)Started consuming messages from topics'']
                      | RaisesKafkaError \<Rightarrow> [Log ERROR ''Error subscribing to topics'']
                      | RaisesOther \<Rightarrow> []))
   \<and> patterns = [''^.*_anomalies$'', ''^.*_normal_data$'', ''^.*_statistics$'']
   \<and> subscriptions (events (snd (topic_update (Some listing) ans s)))
       = subscriptions (events s) + (if listing - current_topics s = {} then 0 else 1)
   \<and> fst (topic_update (Some listing) ans s)
       = (if listing - current_topics s \<noteq> {} \<and> ans = RaisesOther
          then Inl BrokerFailure else Inr PyNone)
   \<and> events (snd (topic_update (Some listing) ans'
                         (snd (topic_update (Some listing) ans s))))
       = events (snd (topic_update (Some listing) ans s)) @ [ListTopics]
   \<and> subscriptions
         (events (snd (topic_update (Some listing) ans'
                         (snd (topic_update (Some listing) ans s)))))
       = subscriptions (events (snd (topic_update (Some listing) ans s)))"
  by (cases ans; cases ans')
     (simp_all add: topic_update_def subscribe_def Let_def events_emit events_logger
        current_topics_emit current_topics_logger subscriptions_append patterns_def
        topics_dict_def,
      simp_all add: subscriptions_def)

theorem topic_update_refresh_witness:
  "current_topics (snd (topic_update (Some {''v1_anomalies'', ''v2_statistics''}) Accepted
                          (fresh\<lparr>current_topics := {''v1_anomalies'', ''gone''}\<rparr>)))
     = {''v1_anomalies'', ''v2_statistics''}
   \<and> events (snd (topic_update (Some {''v1_anomalies'', ''v2_statistics''}) Accepted
                          (fresh\<lparr>current_topics := {''v1_anomalies'', ''gone''}\<rparr>)))
     = [ListTopics, Log DEBUG ''New topics'',
        Subscribe [''^.*_anomalies$'', ''^.*_normal_data$'', ''^.*_statistics$''],
        Log DEBUG ''(Re)Started consuming messages from topics'']
   \<and> events (snd (topic_update (Some {''v1_anomalies'', ''v2_statistics''}) Accepted
                  (snd (topic_update (Some {''v1_anomalies'', ''v2_statistics''}) Accepted
                          (fresh\<lparr>current_topics := {''v1_anomalies'', ''gone''}\<rparr>)))))
     = [ListTopics, Log DEBUG ''New topics'',
        Subscribe [''^.*_anomalies$'', ''^.*_normal_data$'', ''^.*_statistics$''],
        Log DEBUG ''(Re)Started consuming messages from topics'', ListTopics]"
  using topic_update_refresh [of "{''v1_anomalies'', ''v2_statistics''}" Accepted
      "fresh\<lparr>current_topics := {''v1_anomalies'', ''gone''}\<rparr>" Accepted]
  by (simp add: fresh_def)

subsection \<open>The consumption loop\<close>

lemma retry_delay_loop_body: "retry_delay (snd (loop_body routine p s)) = retry_delay s"
  by (simp add: loop_body_def deserialize_message_def Let_def retry_delay_emit
      retry_delay_logger split: poll_result.splits option.splits sum.splits payload.splits)

lemma retry_delay_while_true: "retry_delay (snd (while_true routine ps s)) = retry_delay s"
proof (induction ps arbitrary: s)
  case Nil
  show ?case by simp
next
  case (Cons p ps)
  obtain r s1 where step: "loop_body routine p s = (r, s1)"
    by (cases "loop_body routine p s")
  then have "retry_delay s1 = retry_delay s"
    using retry_delay_loop_body [of routine p s] by simp
  with step Cons.IH [of s1] show ?case
    by (cases r) simp_all
qed

text \<open>
  Whatever the polls are, \<open>read_messages\<close> leaves the field \<open>retry_delay\<close> as it found
  it: the doubled value goes to a local variable.
\<close>

lemma read_messages_keeps_retry_delay:
  "read_messages routine ps s = Returned d s' \<Longrightarrow>
     retry_delay s' = retry_delay s \<and> d = min (retry_delay s * 2) 60"
  using retry_delay_while_true [of routine ps s]
  by (auto simp: read_messages_def Let_def retry_delay_emit retry_delay_logger
      split: prod.splits option.splits)

text \<open>
  C6: the code does not do what the claim, and its own log line and comment, say. The
  broker raises at the first poll and would give nothing at the second. The handler
  logs twice, sleeps one second and assigns 2 to its local variable; then the handle
  is closed and the function returns: one poll in all, so no retry, and the field
  \<open>retry_delay\<close> is still 1. Run again from there with a broker that raises again, it
  sleeps one second again: the delay never grows.
\<close>

theorem read_messages_no_retry:
  "read_messages (\<lambda>_ _. True) [PollRaises, NoMessage] fresh
     = Returned 2 (fresh\<lparr>events :=
         [Poll, Log ERROR ''Error while reading message'', Log INFO ''Retrying in'',
          Sleep 1, Close]\<rparr>)
   \<and> polls [Poll, Log ERROR ''Error while reading message'', Log INFO ''Retrying in'',
            Sleep 1, Close] = 1
   \<and> read_messages (\<lambda>_ _. True) [PollRaises]
        (fresh\<lparr>events :=
           [Poll, Log ERROR ''Error while reading message'', Log INFO ''Retrying in'',
            Sleep 1, Close]\<rparr>)
     = Returned 2 (fresh\<lparr>events :=
         [Poll, Log ERROR ''Error while reading message'', Log INFO ''Retrying in'',
          Sleep 1, Close,
          Poll, Log ERROR ''Error while reading message'', Log INFO ''Retrying in'',
          Sleep 1, Close]\<rparr>)"
  by (simp add: read_messages_def loop_body_def fresh_def emit_def logger_def polls_def Let_def)

text \<open>
  What holds of broker errors: an end of partition, an unknown topic whose error text
  has a second field, and any other error code are logged and the loop goes on.
\<close>

lemma broker_error_logged:
  assumes "msg_error msg = Some e"
    and "err_code e = UNKNOWN_TOPIC_OR_PART \<Longrightarrow> index1 (split_colon_space [] (err_str e)) = Inr name"
  shows "loop_body routine (Message msg) s =
           (None,
            logger (if err_code e = PARTITION_EOF
                      \<or> (err_code e = UNKNOWN_TOPIC_OR_PART \<and> name \<in> set patterns)
                    then INFO else ERROR)
              (if err_code e = PARTITION_EOF then ''End of partition reached''
               else if err_code e = UNKNOWN_TOPIC_OR_PART \<and> name \<in> set patterns
               then ''No avilable vehicles yet'' else ''Consumer error'')
              (emit Poll s))"
  using assms by (simp add: loop_body_def Let_def)

text \<open>
  C8: the code breaks the claim on an unknown-topic error whose text has no
  \<open>': '\<close> in it. \<open>split(': ')\<close> gives a single field, \<open>[1]\<close> raises \<open>IndexError\<close>,
  the exception leaves the loop, the handle is closed and \<open>read_messages\<close> returns: the
  second poll never takes place.
\<close>

theorem unknown_topic_error_ends_loop:
  "split_colon_space [] ''Unknown topic or partition'' = [''Unknown topic or partition'']
   \<and> read_messages (\<lambda>_ _. True)
        [Message \<lparr>msg_error = Some \<lparr>err_code = UNKNOWN_TOPIC_OR_PART,
                                     err_str = ''Unknown topic or partition''\<rparr>,
                  msg_topic = ''v1_anomalies'', msg_value = NoValue\<rparr>,
         NoMessage] fresh
     = Returned 2 (fresh\<lparr>events :=
         [Poll, Log ERROR ''Error while reading message'', Log INFO ''Retrying in'',
          Sleep 1, Close]\<rparr>)"
  by (simp add: read_messages_def loop_body_def index1_def fresh_def emit_def logger_def Let_def)

text \<open>
  What holds of a payload that is text but not JSON: the error is logged, nothing is
  dispatched, the loop goes on.
\<close>

lemma invalid_json_dropped:
  assumes "msg_error msg = None" and "msg_value msg = NotJson"
  shows "loop_body routine (Message msg) s =
           (None, logger WARNING ''Deserialized message is None''
                    (logger ERROR ''Error deserializing message'' (emit Poll s)))"
  using assms by (simp add: loop_body_def deserialize_message_def Let_def)

text \<open>
  C9: the code breaks the claim on a payload that is not UTF-8.
  \<open>deserialize_message\<close> catches \<open>json.JSONDecodeError\<close> only, so the
  \<open>UnicodeDecodeError\<close> of \<open>decode\<close> leaves it and the loop; the handle is closed and
  \<open>read_messages\<close> returns. The well-formed record that the broker holds next is never
  polled.
\<close>

theorem undecodable_payload_ends_loop:
  "fst (deserialize_message
          \<lparr>msg_error = None, msg_topic = ''v1_anomalies'', msg_value = NotUtf8\<rparr> fresh)
     = Inl UnicodeDecodeError
   \<and> read_messages (\<lambda>_ _. True)
        [Message \<lparr>msg_error = None, msg_topic = ''v1_anomalies'', msg_value = NotUtf8\<rparr>,
         Message \<lparr>msg_error = None, msg_topic = ''v1_anomalies'',
                  msg_value = Parsed (JObj [(''speed'', JInt 3)])\<rparr>] fresh
     = Returned 2 (fresh\<lparr>events :=
         [Poll, Log ERROR ''Error while reading message'', Log INFO ''Retrying in'',
          Sleep 1, Close]\<rparr>)"
  by (simp add: read_messages_def loop_body_def deserialize_message_def fresh_def emit_def
      logger_def Let_def)

text \<open>
  C10. For a record without a broker error whose payload parses to \<open>v\<close>: the pass
  through the loop body polls and then either calls the routine with the topic and
  \<open>v\<close>, when \<open>v\<close> is truthy, or logs the warning and calls nothing, when it is not;
  in the second case the loop goes on. The JSON values \<open>null\<close>, \<open>{}\<close>, \<open>[]\<close>,
  \<open>0\<close> and the empty string are not truthy.
\<close>

theorem dispatch_iff_truthy:
  assumes "msg_error msg = None" and "msg_value msg = Parsed v"
  shows "events (snd (loop_body routine (Message msg) s))
           = events s @ [Poll, if truthy v then Dispatch (msg_topic msg) v
                               else Log WARNING ''Deserialized message is None'']
         \<and> (\<not> truthy v \<longrightarrow> fst (loop_body routine (Message msg) s) = None)
         \<and> \<not> truthy JNull \<and> \<not> truthy (JObj []) \<and> \<not> truthy (JArr [])
         \<and> \<not> truthy (JInt 0) \<and> \<not> truthy (JStr [])"
  using assms
  by (simp add: loop_body_def deserialize_message_def Let_def events_emit events_logger)

theorem dispatch_iff_truthy_witness:
  "events (snd (loop_body (\<lambda>_ _. True)
      (Message \<lparr>msg_error = None, msg_topic = ''v1_statistics'', msg_value = Parsed (JObj [])\<rparr>)
      fresh))
     = [Poll, Log WARNING ''Deserialized message is None'']
   \<and> fst (loop_body (\<lambda>_ _. True)
      (Message \<lparr>msg_error = None, msg_topic = ''v1_statistics'', msg_value = Parsed (JObj [])\<rparr>)
      fresh) = None
   \<and> events (snd (loop_body (\<lambda>_ _. True)
      (Message \<lparr>msg_error = None, msg_topic = ''v1_statistics'',
                msg_value = Parsed (JObj [(''n'', JInt 1)])\<rparr>)
      fresh))
     = [Poll, Dispatch ''v1_statistics'' (JObj [(''n'', JInt 1)])]"
  using dispatch_iff_truthy
      [of "\<lparr>msg_error = None, msg_topic = ''v1_statistics'', msg_value = Parsed (JObj [])\<rparr>"
          "JObj []" "\<lambda>_ _. True" fresh]
    dispatch_iff_truthy
      [of "\<lparr>msg_error = None, msg_topic = ''v1_statistics'',
             msg_value = Parsed (JObj [(''n'', JInt 1)])\<rparr>"
          "JObj [(''n'', JInt 1)]" "\<lambda>_ _. True" fresh]
  by (simp add: fresh_def)

section \<open>Properties of the fleet managers\<close>

subsection \<open>Resolving the class lists\<close>

lemma map_of_update: "map_of (AList.update k v al) k' = (if k' = k then Some v else map_of al k')"
  by (simp add: update_conv')

lemma producer_classes_all:
  "map_of c ''anomaly_classes'' = Some (CStr ''all'')
   \<Longrightarrow> map_of (producer_classes c) ''anomaly_classes'' = Some (range_list 0 19)"
  by (simp add: producer_classes_def Let_def map_of_update)

lemma consumer_classes_all:
  "map_of c ''anomaly_classes'' = Some (CStr ''all'') \<Longrightarrow> consumer_classes c = Inr c'
   \<Longrightarrow> map_of c' ''anomaly_classes'' = Some (range_list 1 19)"
  by (auto simp: consumer_classes_def Let_def map_of_update split: option.splits if_splits)

lemma producer_vehicles_append:
  "producer_vehicles dflt (pre @ rest) acc =
     (case producer_vehicles dflt pre acc of Inl x \<Rightarrow> Inl x
      | Inr acc' \<Rightarrow> producer_vehicles dflt rest acc')"
  by (induction dflt pre acc rule: producer_vehicles.induct) simp_all

lemma producer_vehicles_later:
  "producer_vehicles dflt vs (configs, names) = Inr (configs', names')
   \<Longrightarrow> Some n \<notin> vehicle_name_of ` set vs
   \<Longrightarrow> map_of configs' n = map_of configs n"
  by (induction dflt vs "(configs, names)" arbitrary: configs names rule: producer_vehicles.induct)
     (auto simp: vehicle_name_of_def map_of_update)

lemma producer_vehicles_step:
  "vehicle_name_of v = Some n \<Longrightarrow>
   producer_vehicles dflt (v # vs) (configs, names) =
     producer_vehicles dflt vs
       (AList.update n (producer_classes (template dflt v)) configs, names @ [n])"
  by (cases v) (auto simp: vehicle_name_of_def template_def split: list.splits)

lemma consumer_vehicles_append:
  "consumer_vehicles dflt (pre @ rest) acc =
     (case consumer_vehicles dflt pre acc of Inl x \<Rightarrow> Inl x
      | Inr acc' \<Rightarrow> consumer_vehicles dflt rest acc')"
  by (induction dflt pre acc rule: consumer_vehicles.induct) (simp_all split: sum.splits)

lemma consumer_vehicles_later:
  "consumer_vehicles dflt vs configs = Inr configs'
   \<Longrightarrow> Some n \<notin> vehicle_name_of ` set vs
   \<Longrightarrow> map_of configs' n = map_of configs n"
  by (induction dflt vs configs rule: consumer_vehicles.induct)
     (auto simp: vehicle_name_of_def map_of_update split: sum.splits)

lemma consumer_vehicles_step:
  "vehicle_name_of v = Some n \<Longrightarrow>
   consumer_vehicles dflt (v # vs) configs =
     (case consumer_classes (template dflt v) of
        Inl x \<Rightarrow> Inl x
      | Inr c \<Rightarrow> consumer_vehicles dflt vs (AList.update n c configs))"
  by (cases v) (auto simp: vehicle_name_of_def template_def split: list.splits)

text \<open>What a producer manager holds for the last entry of a name in \<open>cfg.vehicles\<close>.\<close>

lemma ProducerManager_resolved:
  assumes "ProducerManager c ps ips = Inr pm"
    and "vehicles c = pre @ v # post"
    and "vehicle_name_of v = Some n"
    and "Some n \<notin> vehicle_name_of ` set post"
  shows "map_of (vehicle_configs pm) n
           = Some (producer_classes (template (default_vehicle_config c) v))"
proof -
  let ?d = "default_vehicle_config c"
  from assms(1,2) obtain configs names
    where run: "producer_vehicles ?d (pre @ v # post) ([], []) = Inr (configs, names)"
      and pm: "vehicle_configs pm = configs"
    by (auto simp: ProducerManager_def split: sum.splits)
  from run obtain configs1 names1
    where pre: "producer_vehicles ?d pre ([], []) = Inr (configs1, names1)"
      and rest: "producer_vehicles ?d (v # post) (configs1, names1) = Inr (configs, names)"
    by (auto simp: producer_vehicles_append split: sum.splits)
  from rest assms(3)
  have "producer_vehicles ?d post
          (AList.update n (producer_classes (template ?d v)) configs1, names1 @ [n])
        = Inr (configs, names)"
    by (simp add: producer_vehicles_step)
  from producer_vehicles_later [OF this assms(4)] pm show ?thesis
    by (simp add: map_of_update)
qed

lemma ConsumerManager_resolved:
  assumes "ConsumerManager c cs = Inr cm"
    and "vehicles c = pre @ v # post"
    and "vehicle_name_of v = Some n"
    and "Some n \<notin> vehicle_name_of ` set post"
  shows "\<exists>c'. consumer_classes (template (consumer_default c) v) = Inr c'
              \<and> map_of (consumer_configs cm) n = Some c'"
proof -
  let ?d = "consumer_default c"
  from assms(1,2) obtain configs
    where run: "consumer_vehicles ?d (pre @ v # post) [] = Inr configs"
      and cm: "consumer_configs cm = configs"
    by (auto simp: ConsumerManager_def split: sum.splits)
  from run obtain configs1
    where pre: "consumer_vehicles ?d pre [] = Inr configs1"
      and rest: "consumer_vehicles ?d (v # post) configs1 = Inr configs"
    by (auto simp: consumer_vehicles_append split: sum.splits)
  from rest assms(3) obtain c'
    where c': "consumer_classes (template ?d v) = Inr c'"
      and post: "consumer_vehicles ?d post (AList.update n c' configs1) = Inr configs"
    by (auto simp: consumer_vehicles_step split: sum.splits)
  from consumer_vehicles_later [OF post assms(4)] cm c' show ?thesis
    by (simp add: map_of_update)
qed

text \<open>
  C3. Take the entry of \<open>cfg.vehicles\<close> that is the last one of its name. If the
  producer manager is built and the vehicle's producer template (the default vehicle
  configuration with the entry's own settings on top) has \<open>anomaly_classes\<close> equal to
  \<open>all\<close>, the manager holds the list 0 to 18 for it, and so does the configuration
  \<open>_build_config_data\<close> makes of what the manager holds. If the consumer manager is
  built and the consumer template has \<open>anomaly_classes\<close> equal to \<open>all\<close>, that manager
  holds the list 1 to 18.
\<close>

theorem anomaly_classes_all:
  assumes "vehicles c = pre @ v # post"
    and "vehicle_name_of v = Some n"
    and "Some n \<notin> vehicle_name_of ` set post"
  shows "(ProducerManager c ps ips = Inr pm
            \<and> map_of (template (default_vehicle_config c) v) ''anomaly_classes''
                = Some (CStr ''all'')
          \<longrightarrow> resolved (vehicle_configs pm) n ''anomaly_classes''
                = Some (CList (map CInt [0, 1, 2, 3, 4, 5, 6, 7, 8, 9, 10, 11, 12, 13, 14, 15,
                                         16, 17, 18]))
            \<and> (\<forall>vc. map_of (vehicle_configs pm) n = Some vc
                 \<longrightarrow> map_of (build_config_data pm vc m) ''anomaly_classes''
                      = Some (CList (map CInt [0, 1, 2, 3, 4, 5, 6, 7, 8, 9, 10, 11, 12, 13, 14,
                                               15, 16, 17, 18]))))
       \<and> (ConsumerManager c cs = Inr cm
            \<and> map_of (template (consumer_default c) v) ''anomaly_classes''
                = Some (CStr ''all'')
          \<longrightarrow> resolved (consumer_configs cm) n ''anomaly_classes''
                = Some (CList (map CInt [1, 2, 3, 4, 5, 6, 7, 8, 9, 10, 11, 12, 13, 14, 15, 16,
                                         17, 18])))"
proof -
  have r0: "range_list 0 19
              = CList (map CInt [0, 1, 2, 3, 4, 5, 6, 7, 8, 9, 10, 11, 12, 13, 14, 15, 16, 17, 18])"
    by (simp add: range_list_def upto_rec1)
  have r1: "range_list 1 19
              = CList (map CInt [1, 2, 3, 4, 5, 6, 7, 8, 9, 10, 11, 12, 13, 14, 15, 16, 17, 18])"
    by (simp add: range_list_def upto_rec1)
  have producer: "resolved (vehicle_configs pm) n ''anomaly_classes'' = Some (range_list 0 19)
      \<and> (\<forall>vc. map_of (vehicle_configs pm) n = Some vc
            \<longrightarrow> map_of (build_config_data pm vc m) ''anomaly_classes''
                 = Some (range_list 0 19))"
    if "ProducerManager c ps ips = Inr pm"
      and "map_of (template (default_vehicle_config c) v) ''anomaly_classes'' = Some (CStr ''all'')"
  proof -
    from ProducerManager_resolved [OF that(1) assms]
    have held: "map_of (vehicle_configs pm) n
                  = Some (producer_classes (template (default_vehicle_config c) v))" .
    with producer_classes_all [OF that(2)] show ?thesis
      by (simp add: resolved_def build_config_data_def get_or_def Let_def)
  qed
  have consumer: "resolved (consumer_configs cm) n ''anomaly_classes'' = Some (range_list 1 19)"
    if "ConsumerManager c cs = Inr cm"
      and "map_of (template (consumer_default c) v) ''anomaly_classes'' = Some (CStr ''all'')"
  proof -
    from ConsumerManager_resolved [OF that(1) assms] obtain c'
      where "consumer_classes (template (consumer_default c) v) = Inr c'"
        and "map_of (consumer_configs cm) n = Some c'"
      by blast
    with consumer_classes_all [OF that(2)] show ?thesis
      by (simp add: resolved_def)
  qed
  from producer consumer show ?thesis
    unfolding r0 r1 by blast
qed

theorem anomaly_classes_all_witness:
  "(case ProducerManager demo_cfg [] [] of
      Inl _ \<Rightarrow> False
    | Inr pm \<Rightarrow>
        resolved (vehicle_configs pm) ''v1'' ''anomaly_classes''
          = Some (CList (map CInt [0, 1, 2, 3, 4, 5, 6, 7, 8, 9, 10, 11, 12, 13, 14, 15, 16, 17,
                                   18])))
   \<and> (case ConsumerManager demo_cfg [] of
        Inl _ \<Rightarrow> False
      | Inr cm \<Rightarrow>
          resolved (consumer_configs cm) ''v1'' ''anomaly_classes''
            = Some (CList (map CInt [1, 2, 3, 4, 5, 6, 7, 8, 9, 10, 11, 12, 13, 14, 15, 16, 17,
                                     18])))"
proof -
  have vs: "vehicles demo_cfg
              = [] @ VStr ''v1'' # [VDict [(''v2'', [(''anomaly_classes'', CList [CInt 3])])]]"
    by (simp add: demo_cfg_def)
  have n: "vehicle_name_of (VStr ''v1'') = Some ''v1''"
    by (simp add: vehicle_name_of_def)
  have later: "Some ''v1'' \<notin> vehicle_name_of
                 ` set [VDict [(''v2'', [(''anomaly_classes'', CList [CInt 3])])]]"
    by (simp add: vehicle_name_of_def)
  obtain pm where pm: "ProducerManager demo_cfg [] [] = Inr pm"
    by (simp add: ProducerManager_def dict_update_def demo_cfg_def)
  obtain cm where cm: "ConsumerManager demo_cfg [] = Inr cm"
    by (simp add: ConsumerManager_def consumer_default_def consumer_classes_def dict_update_def
        demo_cfg_def Let_def)
  have pt: "map_of (template (default_vehicle_config demo_cfg) (VStr ''v1'')) ''anomaly_classes''
              = Some (CStr ''all'')"
    by (simp add: template_def demo_cfg_def)
  have ct: "map_of (template (consumer_default demo_cfg) (VStr ''v1'')) ''anomaly_classes''
              = Some (CStr ''all'')"
    by (simp add: template_def consumer_default_def demo_cfg_def)
  from anomaly_classes_all [OF vs n later, of "[]" "[]" pm "''v1''" "[]" cm] pm cm pt ct
  show ?thesis by simp
qed

subsection \<open>The journal\<close>

declare producer_health_loop.simps [simp del]

declare consumer_health_loop.simps [simp del]

lemma request_simps:
  "fst (request net m url w) = snd (net (clock w) m url)"
  "journal (snd (request net m url w)) = journal w @ [Request (clock w) m url]"
  "clock (snd (request net m url w)) = arrival net (clock w) m url"
  by (simp_all add: request_def arrival_def)

lemma sleep_simps:
  "journal (sleep n w) = journal w @ [Wait n]"
  "clock (sleep n w) = clock w + n"
  by (simp_all add: sleep_def)

lemma report_simps:
  "journal (report l m w) = journal w @ [Report l m]"
  "clock (report l m w) = clock w"
  by (simp_all add: report_def)

lemma since_append: "journal w' = journal w @ js \<Longrightarrow> since w w' = js"
  by (simp add: since_def)

lemma polls_of_append:
  "polls_of url a d (xs @ ys) = (polls_of url a d xs \<and> polls_of url a d ys)"
  by (simp add: polls_of_def)

lemma polls_of_mono_start: "polls_of url b d js \<Longrightarrow> a \<le> b \<Longrightarrow> polls_of url a d js"
  by (induction js) (auto simp: polls_of_def split: action.splits)

lemma polls_of_request:
  "polls_of url a d js \<Longrightarrow> Request t m v \<in> set js
   \<Longrightarrow> m = GET \<and> v = url @ ''/health'' \<and> a \<le> t \<and> t < d"
  by (induction js) (auto simp: polls_of_def split: action.splits)

lemma requests_append: "requests (xs @ ys) = requests xs @ requests ys"
  by (simp add: requests_def)

lemma no_requests: "requests l = [] \<Longrightarrow> Request t m v \<notin> set l"
  by (induction l) (auto simp: requests_def split: action.splits)

lemma no_requests_polls_of: "requests l = [] \<Longrightarrow> polls_of url a d l"
  by (induction l) (auto simp: requests_def polls_of_def split: action.splits)

subsection \<open>The health probes\<close>

text \<open>One poll of the producer probe: one request, then at most a log line.\<close>

lemma producer_health_poll_trace:
  "\<exists>l. journal (snd (producer_health_poll net u w))
          = journal w @ Request (clock w) GET (u @ ''/health'') # l
       \<and> requests l = []
       \<and> clock w \<le> clock (snd (producer_health_poll net u w))
       \<and> (fst (producer_health_poll net u w) = Inr True
            \<longleftrightarrow> healthy producer_markers (snd (net (clock w) GET (u @ ''/health''))))"
  by (auto simp: producer_health_poll_def request_def report_def requests_def healthy_def
      has_marker_def split: reply.splits body.splits)

lemma consumer_health_poll_trace:
  "journal (snd (consumer_health_poll net u w))
          = journal w @ [Request (clock w) GET (u @ ''/health'')]
       \<and> clock w \<le> clock (snd (consumer_health_poll net u w))
       \<and> (fst (consumer_health_poll net u w)
            \<longleftrightarrow> healthy consumer_markers (snd (net (clock w) GET (u @ ''/health''))))"
  by (auto simp: consumer_health_poll_def request_def healthy_def split: reply.splits)

text \<open>
  The producer probe of one address: every request is a GET of its health endpoint
  issued before the deadline, the first of them at once if the deadline is ahead;
  the probe says yes exactly when one of them had a healthy reply; and it says no only
  once the clock has reached the deadline.
\<close>

lemma producer_health_loop_trace:
  "\<exists>js. journal (snd (producer_health_loop net u d w)) = journal w @ js
        \<and> polls_of u (clock w) d js
        \<and> (clock w < d \<longrightarrow> Request (clock w) GET (u @ ''/health'') \<in> set js)
        \<and> (fst (producer_health_loop net u d w) = Inr True
             \<longleftrightarrow> (\<exists>t. Request t GET (u @ ''/health'') \<in> set js
                      \<and> healthy producer_markers (snd (net t GET (u @ ''/health'')))))
        \<and> (fst (producer_health_loop net u d w) = Inr False
             \<longrightarrow> d \<le> clock (snd (producer_health_loop net u d w)))
        \<and> clock w \<le> clock (snd (producer_health_loop net u d w))"
proof (induction net u d w rule: producer_health_loop.induct)
  case (1 net u d w)
  show ?case
  proof (cases "clock w < d")
    case False
    then show ?thesis
      by (subst (1 2 3 4 5) producer_health_loop.simps)
         (auto simp: report_simps polls_of_def)
  next
    case True
    obtain r w1 where poll: "producer_health_poll net u w = (r, w1)"
      by (cases "producer_health_poll net u w")
    from producer_health_poll_trace [of net u w] poll obtain l
      where l: "journal w1 = journal w @ Request (clock w) GET (u @ ''/health'') # l"
        and quiet: "requests l = []"
        and mono: "clock w \<le> clock w1"
        and verdict: "r = Inr True
                      \<longleftrightarrow> healthy producer_markers (snd (net (clock w) GET (u @ ''/health'')))"
      by auto
    note quiet_polls = no_requests_polls_of [OF quiet]
    note quiet_set = no_requests [OF quiet]
    show ?thesis
    proof (cases "r = Inr False")
      case False
      with True poll have out: "producer_health_loop net u d w = (r, w1)"
        by (subst producer_health_loop.simps) simp
      show ?thesis
        unfolding out using l quiet_polls [of u "clock w" d] quiet_set verdict mono True False
        by (auto simp: polls_of_def)
    next
      case r: True
      with True poll
      have out: "producer_health_loop net u d w = producer_health_loop net u d (sleep 2 w1)"
        by (subst producer_health_loop.simps) simp
      from "1.IH" [OF True poll [symmetric] r] obtain js
        where js: "journal (snd (producer_health_loop net u d (sleep 2 w1)))
                     = journal (sleep 2 w1) @ js"
          and p: "polls_of u (clock (sleep 2 w1)) d js"
          and v: "fst (producer_health_loop net u d (sleep 2 w1)) = Inr True
                   \<longleftrightarrow> (\<exists>t. Request t GET (u @ ''/health'') \<in> set js
                            \<and> healthy producer_markers (snd (net t GET (u @ ''/health''))))"
          and f: "fst (producer_health_loop net u d (sleep 2 w1)) = Inr False
                   \<longrightarrow> d \<le> clock (snd (producer_health_loop net u d (sleep 2 w1)))"
          and m: "clock (sleep 2 w1) \<le> clock (snd (producer_health_loop net u d (sleep 2 w1)))"
        by blast
      have unhealthy: "\<not> healthy producer_markers (snd (net (clock w) GET (u @ ''/health'')))"
        using verdict r by simp
      have p': "polls_of u (clock w) d js"
        using polls_of_mono_start [OF p] mono by (simp add: sleep_simps)
      let ?js = "Request (clock w) GET (u @ ''/health'') # l @ Wait 2 # js"
      have "journal (snd (producer_health_loop net u d w)) = journal w @ ?js"
        unfolding out js by (simp add: sleep_simps l)
      moreover have "polls_of u (clock w) d ?js"
        using p' quiet_polls [of u "clock w" d] True by (simp add: polls_of_def)
      moreover have "Request (clock w) GET (u @ ''/health'') \<in> set ?js"
        by simp
      moreover have "fst (producer_health_loop net u d w) = Inr True
                   \<longleftrightarrow> (\<exists>t. Request t GET (u @ ''/health'') \<in> set ?js
                            \<and> healthy producer_markers (snd (net t GET (u @ ''/health''))))"
        unfolding out v using unhealthy quiet_set by auto
      moreover have "fst (producer_health_loop net u d w) = Inr False
                   \<longrightarrow> d \<le> clock (snd (producer_health_loop net u d w))"
        unfolding out using f .
      moreover have "clock w \<le> clock (snd (producer_health_loop net u d w))"
        unfolding out using m mono by (simp add: sleep_simps)
      ultimately show ?thesis by blast
    qed
  qed
qed

lemma consumer_health_loop_trace:
  "\<exists>js. journal (snd (consumer_health_loop net u d w)) = journal w @ js
        \<and> polls_of u (clock w) d js
        \<and> (clock w < d \<longrightarrow> Request (clock w) GET (u @ ''/health'') \<in> set js)
        \<and> (fst (consumer_health_loop net u d w)
             \<longleftrightarrow> (\<exists>t. Request t GET (u @ ''/health'') \<in> set js
                      \<and> healthy consumer_markers (snd (net t GET (u @ ''/health'')))))
        \<and> (\<not> fst (consumer_health_loop net u d w)
             \<longrightarrow> d \<le> clock (snd (consumer_health_loop net u d w)))
        \<and> clock w \<le> clock (snd (consumer_health_loop net u d w))"
proof (induction net u d w rule: consumer_health_loop.induct)
  case (1 net u d w)
  show ?case
  proof (cases "clock w < d")
    case False
    then show ?thesis
      by (subst (1 2 3 4 5) consumer_health_loop.simps) (auto simp: polls_of_def)
  next
    case True
    obtain r w1 where poll: "consumer_health_poll net u w = (r, w1)"
      by (cases "consumer_health_poll net u w")
    from consumer_health_poll_trace [of net u w] poll
    have l: "journal w1 = journal w @ [Request (clock w) GET (u @ ''/health'')]"
      and mono: "clock w \<le> clock w1"
      and verdict: "r \<longleftrightarrow> healthy consumer_markers (snd (net (clock w) GET (u @ ''/health'')))"
      by auto
    show ?thesis
    proof (cases r)
      case r: True
      with True poll have out: "consumer_health_loop net u d w = (True, w1)"
        by (subst consumer_health_loop.simps) simp
      show ?thesis
        unfolding out using l verdict mono True r by (auto simp: polls_of_def)
    next
      case r: False
      with True poll
      have out: "consumer_health_loop net u d w = consumer_health_loop net u d (sleep 2 w1)"
        by (subst consumer_health_loop.simps) simp
      from "1.IH" [OF True poll [symmetric] r] obtain js
        where js: "journal (snd (consumer_health_loop net u d (sleep 2 w1)))
                     = journal (sleep 2 w1) @ js"
          and p: "polls_of u (clock (sleep 2 w1)) d js"
          and v: "fst (consumer_health_loop net u d (sleep 2 w1))
                   \<longleftrightarrow> (\<exists>t. Request t GET (u @ ''/health'') \<in> set js
                            \<and> healthy consumer_markers (snd (net t GET (u @ ''/health''))))"
          and f: "\<not> fst (consumer_health_loop net u d (sleep 2 w1))
                   \<longrightarrow> d \<le> clock (snd (consumer_health_loop net u d (sleep 2 w1)))"
          and m: "clock (sleep 2 w1) \<le> clock (snd (consumer_health_loop net u d (sleep 2 w1)))"
        by blast
      have unhealthy: "\<not> healthy consumer_markers (snd (net (clock w) GET (u @ ''/health'')))"
        using verdict r by simp
      have p': "polls_of u (clock w) d js"
        using polls_of_mono_start [OF p] mono by (simp add: sleep_simps)
      let ?js = "Request (clock w) GET (u @ ''/health'') # Wait 2 # js"
      have "journal (snd (consumer_health_loop net u d w)) = journal w @ ?js"
        unfolding out js by (simp add: sleep_simps l)
      moreover have "polls_of u (clock w) d ?js"
        using p' True by (simp add: polls_of_def)
      moreover have "Request (clock w) GET (u @ ''/health'') \<in> set ?js"
        by simp
      moreover have "fst (consumer_health_loop net u d w)
                   \<longleftrightarrow> (\<exists>t. Request t GET (u @ ''/health'') \<in> set ?js
                            \<and> healthy consumer_markers (snd (net t GET (u @ ''/health''))))"
        unfolding out v using unhealthy by auto
      moreover have "\<not> fst (consumer_health_loop net u d w)
                   \<longrightarrow> d \<le> clock (snd (consumer_health_loop net u d w))"
        unfolding out using f .
      moreover have "clock w \<le> clock (snd (consumer_health_loop net u d w))"
        unfolding out using m mono by (simp add: sleep_simps)
      ultimately show ?thesis by blast
    qed
  qed
qed

lemma producer_wait_for_health_trace:
  "\<exists>js. journal (snd (producer_wait_for_health net u T w)) = journal w @ js
        \<and> polls_of u (clock w) (clock w + T) js
        \<and> (0 < T \<longrightarrow> Request (clock w) GET (u @ ''/health'') \<in> set js)
        \<and> (fst (producer_wait_for_health net u T w) = Inr True
             \<longleftrightarrow> (\<exists>t. Request t GET (u @ ''/health'') \<in> set js
                      \<and> healthy producer_markers (snd (net t GET (u @ ''/health'')))))
        \<and> (fst (producer_wait_for_health net u T w) = Inr False
             \<longrightarrow> clock w + T \<le> clock (snd (producer_wait_for_health net u T w)))
        \<and> clock w \<le> clock (snd (producer_wait_for_health net u T w))"
  using producer_health_loop_trace [of net u "clock w + T" w]
  by (simp add: producer_wait_for_health_def)

lemma wait_for_health_trace:
  "\<exists>js. journal (snd (wait_for_health net u T w)) = journal w @ Wait 2 # js
        \<and> polls_of u (clock w + 2) (clock w + 2 + T) js
        \<and> (0 < T \<longrightarrow> Request (clock w + 2) GET (u @ ''/health'') \<in> set js)
        \<and> (fst (wait_for_health net u T w)
             \<longleftrightarrow> (\<exists>t. Request t GET (u @ ''/health'') \<in> set js
                      \<and> healthy consumer_markers (snd (net t GET (u @ ''/health'')))))
        \<and> (\<not> fst (wait_for_health net u T w)
             \<longrightarrow> clock w + 2 + T \<le> clock (snd (wait_for_health net u T w)))
        \<and> clock w + 2 \<le> clock (snd (wait_for_health net u T w))"
  using consumer_health_loop_trace [of net u "clock (sleep 2 w) + T" "sleep 2 w"]
  by (simp add: wait_for_health_def Let_def sleep_simps)

text \<open>
  The producer's walk through its candidates. What it adds to the journal are GETs of
  the candidates' health endpoints; it settles on \<open>c\<close> exactly when a poll of \<open>c\<close> had
  a healthy reply; and when the candidates differ from each other, the polls of one
  candidate lie within twenty seconds of its first poll, none of them healthy if a later
  candidate is polled at all, and that later poll comes twenty seconds or more after
  the first poll of the earlier candidate.
\<close>

lemma first_healthy_trace:
  "\<exists>js. journal (snd (first_healthy net cs w)) = journal w @ js
        \<and> clock w \<le> clock (snd (first_healthy net cs w))
        \<and> (\<forall>t m v. Request t m v \<in> set js
              \<longrightarrow> m = GET \<and> clock w \<le> t \<and> (\<exists>c. c \<in> set cs \<and> v = c @ ''/health''))
        \<and> (\<forall>c. fst (first_healthy net cs w) = Inr (Some c)
              \<longleftrightarrow> (\<exists>t. Request t GET (c @ ''/health'') \<in> set js
                       \<and> healthy producer_markers (snd (net t GET (c @ ''/health'')))))
        \<and> (distinct cs \<longrightarrow>
             (\<forall>c t t0. Request t GET (c @ ''/health'') \<in> set js
                   \<and> Request t0 GET (c @ ''/health'') \<in> set js \<longrightarrow> t < t0 + 20)
           \<and> (\<forall>pre c post c' t'. cs = pre @ c # post \<and> c' \<in> set post
                   \<and> Request t' GET (c' @ ''/health'') \<in> set js
                 \<longrightarrow> (\<exists>t0. Request t0 GET (c @ ''/health'') \<in> set js \<and> t0 + 20 \<le> t')
                   \<and> (\<forall>t. Request t GET (c @ ''/health'') \<in> set js
                         \<longrightarrow> \<not> healthy producer_markers (snd (net t GET (c @ ''/health''))))))"
proof (induction cs arbitrary: w)
  case Nil
  show ?case by simp
next
  case (Cons c0 rest)
  let ?H = "\<lambda>t c. healthy producer_markers (snd (net t GET (c @ ''/health'')))"
  obtain r1 w1 where probe: "producer_wait_for_health net c0 20 w = (r1, w1)"
    by (cases "producer_wait_for_health net c0 20 w")
  from producer_wait_for_health_trace [of net c0 20 w] probe obtain js1
    where j1: "journal w1 = journal w @ js1"
      and p1: "polls_of c0 (clock w) (clock w + 20) js1"
      and first1: "Request (clock w) GET (c0 @ ''/health'') \<in> set js1"
      and v1: "r1 = Inr True \<longleftrightarrow> (\<exists>t. Request t GET (c0 @ ''/health'') \<in> set js1 \<and> ?H t c0)"
      and f1: "r1 = Inr False \<longrightarrow> clock w + 20 \<le> clock w1"
      and m1: "clock w \<le> clock w1"
    by auto
  have only1: "m = GET \<and> v = c0 @ ''/health'' \<and> clock w \<le> t \<and> t < clock w + 20"
    if "Request t m v \<in> set js1" for t m v
    using polls_of_request [OF p1 that] .
  have c0_only: "c = c0" if "Request t GET (c @ ''/health'') \<in> set js1" for t c
    using only1 [OF that] by simp
  show ?case
  proof (cases "r1 = Inr False")
    case False
    then have out: "first_healthy net (c0 # rest) w
                      = ((case r1 of Inl x \<Rightarrow> Inl x | Inr _ \<Rightarrow> Inr (Some c0)), w1)"
      using probe by (cases r1) (auto split: bool.splits)
    have settled: "fst (first_healthy net (c0 # rest) w) = Inr (Some c)
                     \<longleftrightarrow> (\<exists>t. Request t GET (c @ ''/health'') \<in> set js1 \<and> ?H t c)" for c
    proof
      assume "fst (first_healthy net (c0 # rest) w) = Inr (Some c)"
      then have "r1 = Inr True \<and> c = c0"
        using False unfolding out by (cases r1) simp_all
      with v1 show "\<exists>t. Request t GET (c @ ''/health'') \<in> set js1 \<and> ?H t c"
        by simp
    next
      assume "\<exists>t. Request t GET (c @ ''/health'') \<in> set js1 \<and> ?H t c"
      then obtain t where t: "Request t GET (c @ ''/health'') \<in> set js1" and h: "?H t c"
        by blast
      from c0_only [OF t] have c: "c = c0" .
      with t h v1 have "r1 = Inr True" by blast
      with c show "fst (first_healthy net (c0 # rest) w) = Inr (Some c)"
        unfolding out by simp
    qed
    have window: "t < t0 + 20"
      if "Request t GET (c @ ''/health'') \<in> set js1"
        and "Request t0 GET (c @ ''/health'') \<in> set js1" for c t t0
      using only1 [OF that(1)] only1 [OF that(2)] by simp
    have no_later: False
      if "distinct (c0 # rest)" and "c0 # rest = pre @ c # post" and "c' \<in> set post"
        and "Request t' GET (c' @ ''/health'') \<in> set js1" for pre c post c' t'
    proof -
      from c0_only [OF that(4)] have "c' = c0" .
      with that(1,2,3) show False
        by (cases pre) auto
    qed
    show ?thesis
    proof (intro exI [of _ js1] conjI impI)
      show "journal (snd (first_healthy net (c0 # rest) w)) = journal w @ js1"
        unfolding out using j1 by simp
      show "clock w \<le> clock (snd (first_healthy net (c0 # rest) w))"
        unfolding out using m1 by simp
      show "\<forall>t m v. Request t m v \<in> set js1
              \<longrightarrow> m = GET \<and> clock w \<le> t \<and> (\<exists>c. c \<in> set (c0 # rest) \<and> v = c @ ''/health'')"
      proof (intro allI impI)
        fix t m v
        assume "Request t m v \<in> set js1"
        from only1 [OF this]
        show "m = GET \<and> clock w \<le> t \<and> (\<exists>c. c \<in> set (c0 # rest) \<and> v = c @ ''/health'')"
          by simp
      qed
      show "\<forall>c. fst (first_healthy net (c0 # rest) w) = Inr (Some c)
              \<longleftrightarrow> (\<exists>t. Request t GET (c @ ''/health'') \<in> set js1 \<and> ?H t c)"
        using settled by (intro allI)
      show "\<forall>c t t0. Request t GET (c @ ''/health'') \<in> set js1
                   \<and> Request t0 GET (c @ ''/health'') \<in> set js1 \<longrightarrow> t < t0 + 20"
        using window by (intro allI impI) (elim conjE)
      show "\<forall>pre c post c' t'. c0 # rest = pre @ c # post \<and> c' \<in> set post
                   \<and> Request t' GET (c' @ ''/health'') \<in> set js1
                 \<longrightarrow> (\<exists>t0. Request t0 GET (c @ ''/health'') \<in> set js1 \<and> t0 + 20 \<le> t')
                   \<and> (\<forall>t. Request t GET (c @ ''/health'') \<in> set js1 \<longrightarrow> \<not> ?H t c)"
        if "distinct (c0 # rest)"
      proof (intro allI impI, elim conjE)
        fix pre c post c' t'
        assume "c0 # rest = pre @ c # post" and "c' \<in> set post"
          and "Request t' GET (c' @ ''/health'') \<in> set js1"
        from no_later [OF that this]
        show "(\<exists>t0. Request t0 GET (c @ ''/health'') \<in> set js1 \<and> t0 + 20 \<le> t')
                   \<and> (\<forall>t. Request t GET (c @ ''/health'') \<in> set js1 \<longrightarrow> \<not> ?H t c)" ..
      qed
    qed
  next
    case r1: True
    with probe have out: "first_healthy net (c0 # rest) w = first_healthy net rest w1"
      by simp
    have unhealthy1: "\<not> ?H t c" if "Request t GET (c @ ''/health'') \<in> set js1" for t c
    proof -
      from c0_only [OF that] have "c = c0" .
      with that v1 r1 show ?thesis by blast
    qed
    from f1 r1 have late: "clock w + 20 \<le> clock w1" by simp
    from Cons.IH [of w1] obtain js2
      where j2: "journal (snd (first_healthy net rest w1)) = journal w1 @ js2"
        and m2: "clock w1 \<le> clock (snd (first_healthy net rest w1))"
        and only2: "\<forall>t m v. Request t m v \<in> set js2
              \<longrightarrow> m = GET \<and> clock w1 \<le> t \<and> (\<exists>c. c \<in> set rest \<and> v = c @ ''/health'')"
        and v2: "\<forall>c. fst (first_healthy net rest w1) = Inr (Some c)
              \<longleftrightarrow> (\<exists>t. Request t GET (c @ ''/health'') \<in> set js2 \<and> ?H t c)"
        and d2: "distinct rest \<longrightarrow>
             (\<forall>c t t0. Request t GET (c @ ''/health'') \<in> set js2
                   \<and> Request t0 GET (c @ ''/health'') \<in> set js2 \<longrightarrow> t < t0 + 20)
           \<and> (\<forall>pre c post c' t'. rest = pre @ c # post \<and> c' \<in> set post
                   \<and> Request t' GET (c' @ ''/health'') \<in> set js2
                 \<longrightarrow> (\<exists>t0. Request t0 GET (c @ ''/health'') \<in> set js2 \<and> t0 + 20 \<le> t')
                   \<and> (\<forall>t. Request t GET (c @ ''/health'') \<in> set js2 \<longrightarrow> \<not> ?H t c))"
      by blast
    have in2: "m = GET \<and> clock w1 \<le> t \<and> (\<exists>c. c \<in> set rest \<and> v = c @ ''/health'')"
      if "Request t m v \<in> set js2" for t m v
      using only2 that by blast
    have rest_only: "c \<in> set rest \<and> clock w1 \<le> t"
      if "Request t GET (c @ ''/health'') \<in> set js2" for t c
      using in2 [OF that] by simp
    have a: "journal (snd (first_healthy net (c0 # rest) w)) = journal w @ js1 @ js2"
      unfolding out j2 j1 by simp
    have b: "clock w \<le> clock (snd (first_healthy net (c0 # rest) w))"
      unfolding out using m1 m2 by simp
    have c: "m = GET \<and> clock w \<le> t \<and> (\<exists>c. c \<in> set (c0 # rest) \<and> v = c @ ''/health'')"
      if "Request t m v \<in> set (js1 @ js2)" for t m v
    proof -
      from that consider "Request t m v \<in> set js1" | "Request t m v \<in> set js2"
        by auto
      then show ?thesis
      proof cases
        case 1
        from only1 [OF 1] show ?thesis by simp
      next
        case 2
        from in2 [OF 2] m1 show ?thesis by auto
      qed
    qed
    have d: "fst (first_healthy net (c0 # rest) w) = Inr (Some c)
               \<longleftrightarrow> (\<exists>t. Request t GET (c @ ''/health'') \<in> set (js1 @ js2) \<and> ?H t c)" for c
    proof -
      have "(\<exists>t. Request t GET (c @ ''/health'') \<in> set (js1 @ js2) \<and> ?H t c)
              \<longleftrightarrow> (\<exists>t. Request t GET (c @ ''/health'') \<in> set js2 \<and> ?H t c)"
        using unhealthy1 [of _ c] by auto
      with v2 show ?thesis unfolding out by simp
    qed
    have e: "t < t0 + 20"
      if dist: "distinct (c0 # rest)"
        and t: "Request t GET (c @ ''/health'') \<in> set (js1 @ js2)"
        and t0: "Request t0 GET (c @ ''/health'') \<in> set (js1 @ js2)" for c t t0
    proof (cases "c = c0")
      case True
      from dist True have "c \<notin> set rest" by simp
      with rest_only [of t c] rest_only [of t0 c] t t0
      have "Request t GET (c @ ''/health'') \<in> set js1"
        and "Request t0 GET (c @ ''/health'') \<in> set js1"
        by auto
      from only1 [OF this(1)] only1 [OF this(2)]
      show ?thesis by simp
    next
      case False
      with c0_only [of t c] c0_only [of t0 c] t t0
      have "Request t GET (c @ ''/health'') \<in> set js2"
        and "Request t0 GET (c @ ''/health'') \<in> set js2"
        by auto
      moreover from dist have "distinct rest" by simp
      ultimately show ?thesis using d2 by blast
    qed
    have f: "(\<exists>t0. Request t0 GET (c @ ''/health'') \<in> set (js1 @ js2) \<and> t0 + 20 \<le> t')
               \<and> (\<forall>t. Request t GET (c @ ''/health'') \<in> set (js1 @ js2) \<longrightarrow> \<not> ?H t c)"
      if dist: "distinct (c0 # rest)" and split: "c0 # rest = pre @ c # post"
        and c': "c' \<in> set post"
        and t': "Request t' GET (c' @ ''/health'') \<in> set (js1 @ js2)" for pre c post c' t'
    proof (cases pre)
      case Nil
      with split have c: "c = c0" and post: "post = rest" by simp_all
      with dist c' have "c' \<noteq> c0" by auto
      with t' c0_only [of t' c'] have "Request t' GET (c' @ ''/health'') \<in> set js2" by auto
      from rest_only [OF this] late have t'_late: "clock w + 20 \<le> t'" by simp
      have "\<not> ?H t c0" if "Request t GET (c0 @ ''/health'') \<in> set (js1 @ js2)" for t
      proof -
        from dist have "c0 \<notin> set rest" by simp
        with rest_only [of t c0] that have "Request t GET (c0 @ ''/health'') \<in> set js1"
          by auto
        from unhealthy1 [OF this] show ?thesis .
      qed
      with first1 t'_late c show ?thesis
        by auto
    next
      case (Cons a pre')
      with split have rest: "rest = pre' @ c # post" by simp
      with dist c' have "c' \<noteq> c0" and "c \<noteq> c0" by auto
      with t' c0_only [of t' c'] have t2: "Request t' GET (c' @ ''/health'') \<in> set js2" by auto
      from dist have "distinct rest" by simp
      with d2 rest c' t2
      have "(\<exists>t0. Request t0 GET (c @ ''/health'') \<in> set js2 \<and> t0 + 20 \<le> t')
              \<and> (\<forall>t. Request t GET (c @ ''/health'') \<in> set js2 \<longrightarrow> \<not> ?H t c)"
        by blast
      moreover have "Request t GET (c @ ''/health'') \<notin> set js1" for t
        using c0_only [of t c] \<open>c \<noteq> c0\<close> by blast
      ultimately show ?thesis by auto
    qed
    show ?thesis
    proof (intro exI [of _ "js1 @ js2"] conjI impI)
      show "journal (snd (first_healthy net (c0 # rest) w)) = journal w @ js1 @ js2"
        by (rule a)
      show "clock w \<le> clock (snd (first_healthy net (c0 # rest) w))"
        by (rule b)
      show "\<forall>t m v. Request t m v \<in> set (js1 @ js2)
              \<longrightarrow> m = GET \<and> clock w \<le> t \<and> (\<exists>c. c \<in> set (c0 # rest) \<and> v = c @ ''/health'')"
        using c by (intro allI impI)
      show "\<forall>c. fst (first_healthy net (c0 # rest) w) = Inr (Some c)
              \<longleftrightarrow> (\<exists>t. Request t GET (c @ ''/health'') \<in> set (js1 @ js2) \<and> ?H t c)"
        using d by (intro allI)
      show "\<forall>c t t0. Request t GET (c @ ''/health'') \<in> set (js1 @ js2)
                   \<and> Request t0 GET (c @ ''/health'') \<in> set (js1 @ js2) \<longrightarrow> t < t0 + 20"
        if "distinct (c0 # rest)"
        using e [OF that] by (intro allI impI) (elim conjE)
      show "\<forall>pre c post c' t'. c0 # rest = pre @ c # post \<and> c' \<in> set post
                   \<and> Request t' GET (c' @ ''/health'') \<in> set (js1 @ js2)
                 \<longrightarrow> (\<exists>t0. Request t0 GET (c @ ''/health'') \<in> set (js1 @ js2) \<and> t0 + 20 \<le> t')
                   \<and> (\<forall>t. Request t GET (c @ ''/health'') \<in> set (js1 @ js2) \<longrightarrow> \<not> ?H t c)"
        if "distinct (c0 # rest)"
        using f [OF that] by (intro allI impI) (elim conjE)
    qed
  qed
qed

text \<open>The consumer's choice between its two addresses, in the same terms.\<close>

lemma consumer_api_url_trace:
  "\<exists>js. journal (snd (consumer_api_url net h i w)) = journal w @ js
        \<and> clock w \<le> clock (snd (consumer_api_url net h i w))
        \<and> (\<forall>t m v. Request t m v \<in> set js
              \<longrightarrow> m = GET \<and> clock w \<le> t \<and> (v = h @ ''/health'' \<or> v = i @ ''/health''))
        \<and> (\<forall>c. fst (consumer_api_url net h i w) = Some c
              \<longleftrightarrow> (\<exists>t. Request t GET (c @ ''/health'') \<in> set js
                       \<and> healthy consumer_markers (snd (net t GET (c @ ''/health'')))))
        \<and> (h \<noteq> i \<longrightarrow>
             (\<forall>c t t0. Request t GET (c @ ''/health'') \<in> set js
                   \<and> Request t0 GET (c @ ''/health'') \<in> set js \<longrightarrow> t < t0 + 60)
           \<and> (\<forall>t'. Request t' GET (i @ ''/health'') \<in> set js
                 \<longrightarrow> (\<exists>t0. Request t0 GET (h @ ''/health'') \<in> set js \<and> t0 + 60 \<le> t')
                   \<and> (\<forall>t. Request t GET (h @ ''/health'') \<in> set js
                         \<longrightarrow> \<not> healthy consumer_markers (snd (net t GET (h @ ''/health''))))))"
proof -
  let ?H = "\<lambda>t c. healthy consumer_markers (snd (net t GET (c @ ''/health'')))"
  obtain r1 w1 where probe1: "wait_for_health net h 60 w = (r1, w1)"
    by (cases "wait_for_health net h 60 w")
  from wait_for_health_trace [of net h 60 w] probe1 obtain js1
    where j1: "journal w1 = journal w @ Wait 2 # js1"
      and p1: "polls_of h (clock w + 2) (clock w + 2 + 60) js1"
      and first1: "Request (clock w + 2) GET (h @ ''/health'') \<in> set js1"
      and v1: "r1 \<longleftrightarrow> (\<exists>t. Request t GET (h @ ''/health'') \<in> set js1 \<and> ?H t h)"
      and f1: "\<not> r1 \<longrightarrow> clock w + 2 + 60 \<le> clock w1"
      and m1: "clock w + 2 \<le> clock w1"
    by auto
  have only1: "m = GET \<and> v = h @ ''/health'' \<and> clock w + 2 \<le> t \<and> t < clock w + 2 + 60"
    if "Request t m v \<in> set js1" for t m v
    using polls_of_request [OF p1 that] .
  have h_only: "c = h" if "Request t GET (c @ ''/health'') \<in> set js1" for t c
    using only1 [OF that] by simp
  show ?thesis
  proof (cases r1)
    case True
    with probe1 have out: "consumer_api_url net h i w = (Some h, w1)"
      by (simp add: consumer_api_url_def)
    have settled: "fst (consumer_api_url net h i w) = Some c
                     \<longleftrightarrow> (\<exists>t. Request t GET (c @ ''/health'') \<in> set (Wait 2 # js1) \<and> ?H t c)"
      for c
    proof
      assume "fst (consumer_api_url net h i w) = Some c"
      then have "c = h" unfolding out by simp
      with v1 True show "\<exists>t. Request t GET (c @ ''/health'') \<in> set (Wait 2 # js1) \<and> ?H t c"
        by auto
    next
      assume "\<exists>t. Request t GET (c @ ''/health'') \<in> set (Wait 2 # js1) \<and> ?H t c"
      then obtain t where "Request t GET (c @ ''/health'') \<in> set js1" by auto
      from h_only [OF this] show "fst (consumer_api_url net h i w) = Some c"
        unfolding out by simp
    qed
    show ?thesis
    proof (intro exI [of _ "Wait 2 # js1"] conjI impI)
      show "journal (snd (consumer_api_url net h i w)) = journal w @ Wait 2 # js1"
        unfolding out using j1 by simp
      show "clock w \<le> clock (snd (consumer_api_url net h i w))"
        unfolding out using m1 by simp
      show "\<forall>t m v. Request t m v \<in> set (Wait 2 # js1)
              \<longrightarrow> m = GET \<and> clock w \<le> t \<and> (v = h @ ''/health'' \<or> v = i @ ''/health'')"
      proof (intro allI impI)
        fix t m v
        assume "Request t m v \<in> set (Wait 2 # js1)"
        then have "Request t m v \<in> set js1" by simp
        from only1 [OF this]
        show "m = GET \<and> clock w \<le> t \<and> (v = h @ ''/health'' \<or> v = i @ ''/health'')"
          by simp
      qed
      show "\<forall>c. fst (consumer_api_url net h i w) = Some c
              \<longleftrightarrow> (\<exists>t. Request t GET (c @ ''/health'') \<in> set (Wait 2 # js1) \<and> ?H t c)"
        using settled by (intro allI)
      show "\<forall>c t t0. Request t GET (c @ ''/health'') \<in> set (Wait 2 # js1)
                   \<and> Request t0 GET (c @ ''/health'') \<in> set (Wait 2 # js1) \<longrightarrow> t < t0 + 60"
      proof (intro allI impI, elim conjE)
        fix c t t0
        assume "Request t GET (c @ ''/health'') \<in> set (Wait 2 # js1)"
          and "Request t0 GET (c @ ''/health'') \<in> set (Wait 2 # js1)"
        then have "Request t GET (c @ ''/health'') \<in> set js1"
          and "Request t0 GET (c @ ''/health'') \<in> set js1" by simp_all
        from only1 [OF this(1)] only1 [OF this(2)] show "t < t0 + 60" by simp
      qed
      show "\<forall>t'. Request t' GET (i @ ''/health'') \<in> set (Wait 2 # js1)
                 \<longrightarrow> (\<exists>t0. Request t0 GET (h @ ''/health'') \<in> set (Wait 2 # js1) \<and> t0 + 60 \<le> t')
                   \<and> (\<forall>t. Request t GET (h @ ''/health'') \<in> set (Wait 2 # js1) \<longrightarrow> \<not> ?H t h)"
        if "h \<noteq> i"
      proof (intro allI impI)
        fix t'
        assume "Request t' GET (i @ ''/health'') \<in> set (Wait 2 # js1)"
        then have "Request t' GET (i @ ''/health'') \<in> set js1" by simp
        from h_only [OF this] that
        show "(\<exists>t0. Request t0 GET (h @ ''/health'') \<in> set (Wait 2 # js1) \<and> t0 + 60 \<le> t')
                   \<and> (\<forall>t. Request t GET (h @ ''/health'') \<in> set (Wait 2 # js1) \<longrightarrow> \<not> ?H t h)"
          by simp
      qed
    qed
  next
    case r1: False
    obtain r2 w2 where probe2: "wait_for_health net i 60 w1 = (r2, w2)"
      by (cases "wait_for_health net i 60 w1")
    from wait_for_health_trace [of net i 60 w1] probe2 obtain js2
      where j2: "journal w2 = journal w1 @ Wait 2 # js2"
        and p2: "polls_of i (clock w1 + 2) (clock w1 + 2 + 60) js2"
        and v2: "r2 \<longleftrightarrow> (\<exists>t. Request t GET (i @ ''/health'') \<in> set js2 \<and> ?H t i)"
        and m2: "clock w1 + 2 \<le> clock w2"
      by auto
    have only2: "m = GET \<and> v = i @ ''/health'' \<and> clock w1 + 2 \<le> t \<and> t < clock w1 + 2 + 60"
      if "Request t m v \<in> set js2" for t m v
      using polls_of_request [OF p2 that] .
    have i_only: "c = i" if "Request t GET (c @ ''/health'') \<in> set js2" for t c
      using only2 [OF that] by simp
    from r1 f1 have late: "clock w + 2 + 60 \<le> clock w1" by simp
    from r1 v1 have unhealthy1: "\<not> ?H t h" if "Request t GET (h @ ''/health'') \<in> set js1" for t
      using that by blast
    let ?js = "Wait 2 # js1 @ Wait 2 # js2"
    have mem: "Request t m v \<in> set ?js
                 \<longleftrightarrow> Request t m v \<in> set js1 \<or> Request t m v \<in> set js2" for t m v
      by auto
    from r1 probe1 probe2
    have out: "consumer_api_url net h i w = ((if r2 then Some i else None), w2)"
      by (simp add: consumer_api_url_def)
    have settled: "fst (consumer_api_url net h i w) = Some c
                     \<longleftrightarrow> (\<exists>t. Request t GET (c @ ''/health'') \<in> set ?js \<and> ?H t c)" for c
    proof
      assume "fst (consumer_api_url net h i w) = Some c"
      then have "r2 \<and> c = i" unfolding out by (simp split: if_splits)
      with v2 show "\<exists>t. Request t GET (c @ ''/health'') \<in> set ?js \<and> ?H t c"
        unfolding mem by blast
    next
      assume "\<exists>t. Request t GET (c @ ''/health'') \<in> set ?js \<and> ?H t c"
      then obtain t
        where t: "Request t GET (c @ ''/health'') \<in> set js1
                    \<or> Request t GET (c @ ''/health'') \<in> set js2"
          and healthy: "?H t c"
        unfolding mem by blast
      from t show "fst (consumer_api_url net h i w) = Some c"
      proof
        assume t1: "Request t GET (c @ ''/health'') \<in> set js1"
        from h_only [OF this] have "c = h" .
        with t1 healthy unhealthy1 [of t] show ?thesis by blast
      next
        assume t2: "Request t GET (c @ ''/health'') \<in> set js2"
        from i_only [OF this] have "c = i" .
        with t2 healthy v2 have "r2 \<and> c = i" by blast
        then show ?thesis unfolding out by simp
      qed
    qed
    show ?thesis
    proof (intro exI [of _ ?js] conjI impI)
      show "journal (snd (consumer_api_url net h i w)) = journal w @ ?js"
        unfolding out using j1 j2 by simp
      show "clock w \<le> clock (snd (consumer_api_url net h i w))"
        unfolding out using m1 m2 by simp
      show "\<forall>t m v. Request t m v \<in> set ?js
              \<longrightarrow> m = GET \<and> clock w \<le> t \<and> (v = h @ ''/health'' \<or> v = i @ ''/health'')"
      proof (intro allI impI)
        fix t m v
        assume "Request t m v \<in> set ?js"
        then consider "Request t m v \<in> set js1" | "Request t m v \<in> set js2"
          unfolding mem by blast
        then show "m = GET \<and> clock w \<le> t \<and> (v = h @ ''/health'' \<or> v = i @ ''/health'')"
        proof cases
          case 1
          from only1 [OF 1] show ?thesis by simp
        next
          case 2
          from only2 [OF 2] m1 show ?thesis by simp
        qed
      qed
      show "\<forall>c. fst (consumer_api_url net h i w) = Some c
              \<longleftrightarrow> (\<exists>t. Request t GET (c @ ''/health'') \<in> set ?js \<and> ?H t c)"
        using settled by (intro allI)
      show "\<forall>c t t0. Request t GET (c @ ''/health'') \<in> set ?js
                   \<and> Request t0 GET (c @ ''/health'') \<in> set ?js \<longrightarrow> t < t0 + 60"
        if "h \<noteq> i"
      proof (intro allI impI, elim conjE)
        fix c t t0
        assume t: "Request t GET (c @ ''/health'') \<in> set ?js"
          and t0: "Request t0 GET (c @ ''/health'') \<in> set ?js"
        show "t < t0 + 60"
        proof (cases "c = h")
          case True
          with that i_only [of t c] i_only [of t0 c] t t0
          have "Request t GET (c @ ''/health'') \<in> set js1"
            and "Request t0 GET (c @ ''/health'') \<in> set js1"
            unfolding mem by blast+
          from only1 [OF this(1)] only1 [OF this(2)] show ?thesis by simp
        next
          case False
          with h_only [of t c] h_only [of t0 c] t t0
          have "Request t GET (c @ ''/health'') \<in> set js2"
            and "Request t0 GET (c @ ''/health'') \<in> set js2"
            unfolding mem by blast+
          from only2 [OF this(1)] only2 [OF this(2)] show ?thesis by simp
        qed
      qed
      show "\<forall>t'. Request t' GET (i @ ''/health'') \<in> set ?js
                 \<longrightarrow> (\<exists>t0. Request t0 GET (h @ ''/health'') \<in> set ?js \<and> t0 + 60 \<le> t')
                   \<and> (\<forall>t. Request t GET (h @ ''/health'') \<in> set ?js \<longrightarrow> \<not> ?H t h)"
        if "h \<noteq> i"
      proof (intro allI impI)
        fix t'
        assume "Request t' GET (i @ ''/health'') \<in> set ?js"
        with that h_only [of t' i] have "Request t' GET (i @ ''/health'') \<in> set js2"
          unfolding mem by blast
        from only2 [OF this] late have t'_late: "clock w + 2 + 60 \<le> t'" by simp
        have "\<not> ?H t h" if t: "Request t GET (h @ ''/health'') \<in> set ?js" for t
        proof -
          from t \<open>h \<noteq> i\<close> i_only [of t h] have "Request t GET (h @ ''/health'') \<in> set js1"
            unfolding mem by blast
          from unhealthy1 [OF this] show ?thesis .
        qed
        moreover from first1 have "Request (clock w + 2) GET (h @ ''/health'') \<in> set ?js"
          unfolding mem by blast
        ultimately
        show "(\<exists>t0. Request t0 GET (h @ ''/health'') \<in> set ?js \<and> t0 + 60 \<le> t')
                   \<and> (\<forall>t. Request t GET (h @ ''/health'') \<in> set ?js \<longrightarrow> \<not> ?H t h)"
          using t'_late by (intro conjI exI [of _ "clock w + 2"] allI impI) simp_all
      qed
    qed
  qed
qed

subsection \<open>C4: the health probe\<close>

text \<open>
  C4, as stated, fails: the claim has a candidate accepted only if the healthy reply is
  received before the candidate's deadline. The deadline is tested before each poll and
  not after it. On \<open>late_reply\<close> the probe starts at second 0 with the deadline at
  second 20; the replies to the polls of seconds 0, 6 and 12 are not healthy; the poll of
  second 18 is issued before the deadline, its healthy reply is in at second 22, after
  the deadline, and the probe accepts.
\<close>

theorem accepted_after_deadline:
  "producer_wait_for_health late_reply ''http://v1_producer:5000'' 20 start_of_time
     = (Inr True,
        \<lparr>clock = 22,
         journal =
           [Request 0 GET ''http://v1_producer:5000/health'',
            Report DEBUG ''Health check failed with status'', Wait 2,
            Request 6 GET ''http://v1_producer:5000/health'',
            Report DEBUG ''Health check failed with status'', Wait 2,
            Request 12 GET ''http://v1_producer:5000/health'',
            Report DEBUG ''Health check failed with status'', Wait 2,
            Request 18 GET ''http://v1_producer:5000/health'',
            Report INFO ''Health check passed'']\<rparr>)
   \<and> \<not> healthy producer_markers (snd (late_reply 0 GET ''http://v1_producer:5000/health''))
   \<and> \<not> healthy producer_markers (snd (late_reply 6 GET ''http://v1_producer:5000/health''))
   \<and> \<not> healthy producer_markers (snd (late_reply 12 GET ''http://v1_producer:5000/health''))
   \<and> healthy producer_markers (snd (late_reply 18 GET ''http://v1_producer:5000/health''))
   \<and> arrival late_reply 18 GET ''http://v1_producer:5000/health'' = 22
   \<and> \<not> arrival late_reply 18 GET ''http://v1_producer:5000/health'' < clock start_of_time + 20"
  by (simp add: producer_wait_for_health_def producer_health_loop.simps producer_health_poll_def
      request_def report_def sleep_def late_reply_def start_of_time_def ok_def
      raises_for_status_def has_marker_def producer_markers_def healthy_def arrival_def)

lemma producer_health_poll_swallows:
  "fst (producer_health_poll net u w) = Inr False
     \<longleftrightarrow> \<not> healthy producer_markers (snd (net (clock w) GET (u @ ''/health'')))
         \<and> (\<forall>x. snd (net (clock w) GET (u @ ''/health'')) = Raises x \<longrightarrow> request_exception x)"
  by (auto simp: producer_health_poll_def request_def healthy_def has_marker_def
      split: reply.splits body.splits)

text \<open>
  One poll ends when its reply is in, and the producer's poll lets through exactly what
  is raised and is not a \<open>RequestException\<close>.
\<close>

lemma producer_health_poll_clock:
  "clock (snd (producer_health_poll net u w)) = arrival net (clock w) GET (u @ ''/health'')"
  by (simp add: producer_health_poll_def request_def report_def arrival_def
      split: reply.splits body.splits)

lemma producer_health_poll_raises:
  "fst (producer_health_poll net u w) = Inl x
     \<longleftrightarrow> snd (net (clock w) GET (u @ ''/health'')) = Raises x \<and> \<not> request_exception x"
  by (auto simp: producer_health_poll_def request_def split: reply.splits body.splits)

lemma consumer_health_poll_clock:
  "clock (snd (consumer_health_poll net u w)) = arrival net (clock w) GET (u @ ''/health'')"
  by (simp add: consumer_health_poll_def request_def arrival_def split: reply.splits)

text \<open>
  The loop of a probe polls again: after a reply that is swallowed, the next poll is
  issued two seconds after the reply is in, provided that moment lies before the
  deadline. The producer's loop ends with an exception exactly when a poll raised one
  that is not a \<open>RequestException\<close>.
\<close>

lemma producer_health_loop_polls:
  "\<exists>js. journal (snd (producer_health_loop net u d w)) = journal w @ js
        \<and> (clock w < d \<longrightarrow> Request (clock w) GET (u @ ''/health'') \<in> set js)
        \<and> (\<forall>t. Request t GET (u @ ''/health'') \<in> set js
                \<and> \<not> healthy producer_markers (snd (net t GET (u @ ''/health'')))
                \<and> (\<forall>x. snd (net t GET (u @ ''/health'')) = Raises x \<longrightarrow> request_exception x)
                \<and> arrival net t GET (u @ ''/health'') + 2 < d
              \<longrightarrow> Request (arrival net t GET (u @ ''/health'') + 2) GET (u @ ''/health'')
                    \<in> set js)
        \<and> (\<forall>x. fst (producer_health_loop net u d w) = Inl x
              \<longleftrightarrow> (\<exists>t. Request t GET (u @ ''/health'') \<in> set js
                       \<and> snd (net t GET (u @ ''/health'')) = Raises x \<and> \<not> request_exception x))"
proof (induction net u d w rule: producer_health_loop.induct)
  case (1 net u d w)
  let ?U = "\<lambda>t. \<not> healthy producer_markers (snd (net t GET (u @ ''/health'')))"
  let ?Q = "\<lambda>t. \<forall>x. snd (net t GET (u @ ''/health'')) = Raises x \<longrightarrow> request_exception x"
  let ?A = "\<lambda>t. arrival net t GET (u @ ''/health'')"
  show ?case
  proof (cases "clock w < d")
    case False
    then show ?thesis
      by (subst (1 2) producer_health_loop.simps) (simp add: report_simps)
  next
    case True
    obtain r w1 where poll: "producer_health_poll net u w = (r, w1)"
      by (cases "producer_health_poll net u w")
    from producer_health_poll_trace [of net u w] poll obtain l
      where l: "journal w1 = journal w @ Request (clock w) GET (u @ ''/health'') # l"
        and quiet: "requests l = []"
      by auto
    note quiet_set = no_requests [OF quiet]
    from producer_health_poll_swallows [of net u w] poll
    have swallows: "r = Inr False \<longleftrightarrow> ?U (clock w) \<and> ?Q (clock w)"
      by simp
    from producer_health_poll_raises [of net u w] poll
    have raises: "r = Inl x
        \<longleftrightarrow> snd (net (clock w) GET (u @ ''/health'')) = Raises x \<and> \<not> request_exception x" for x
      by simp
    from producer_health_poll_clock [of net u w] poll
    have at: "clock w1 = ?A (clock w)"
      by simp
    show ?thesis
    proof (cases "r = Inr False")
      case False
      with True poll have out: "producer_health_loop net u d w = (r, w1)"
        by (subst producer_health_loop.simps) simp
      have only: "t = clock w" if "Request t GET (u @ ''/health'') \<in> set (Request (clock w) GET (u @ ''/health'') # l)" for t
        using that quiet_set by auto
      show ?thesis
        unfolding out
      proof (intro exI [of _ "Request (clock w) GET (u @ ''/health'') # l"] conjI allI impI)
        show "journal (snd (r, w1)) = journal w @ Request (clock w) GET (u @ ''/health'') # l"
          using l by simp
        show "Request (clock w) GET (u @ ''/health'')
                \<in> set (Request (clock w) GET (u @ ''/health'') # l)"
          by simp
        show "Request (?A t + 2) GET (u @ ''/health'')
                \<in> set (Request (clock w) GET (u @ ''/health'') # l)"
          if "Request t GET (u @ ''/health'') \<in> set (Request (clock w) GET (u @ ''/health'') # l)
                \<and> ?U t \<and> ?Q t \<and> ?A t + 2 < d" for t
        proof -
          from that only [of t] have "?U (clock w) \<and> ?Q (clock w)" by blast
          with swallows False show ?thesis by simp
        qed
        show "fst (r, w1) = Inl x
              \<longleftrightarrow> (\<exists>t. Request t GET (u @ ''/health'')
                          \<in> set (Request (clock w) GET (u @ ''/health'') # l)
                       \<and> snd (net t GET (u @ ''/health'')) = Raises x \<and> \<not> request_exception x)"
          for x
          using raises [of x] only by auto
      qed
    next
      case r: True
      with True poll
      have out: "producer_health_loop net u d w = producer_health_loop net u d (sleep 2 w1)"
        by (subst producer_health_loop.simps) simp
      from "1.IH" [OF True poll [symmetric] r] obtain js
        where js: "journal (snd (producer_health_loop net u d (sleep 2 w1)))
                     = journal (sleep 2 w1) @ js"
          and first: "clock (sleep 2 w1) < d
                       \<longrightarrow> Request (clock (sleep 2 w1)) GET (u @ ''/health'') \<in> set js"
          and again: "\<forall>t. Request t GET (u @ ''/health'') \<in> set js \<and> ?U t \<and> ?Q t \<and> ?A t + 2 < d
                       \<longrightarrow> Request (?A t + 2) GET (u @ ''/health'') \<in> set js"
          and leak: "\<forall>x. fst (producer_health_loop net u d (sleep 2 w1)) = Inl x
              \<longleftrightarrow> (\<exists>t. Request t GET (u @ ''/health'') \<in> set js
                       \<and> snd (net t GET (u @ ''/health'')) = Raises x \<and> \<not> request_exception x)"
        by blast
      have next_at: "clock (sleep 2 w1) = ?A (clock w) + 2"
        using at by (simp add: sleep_simps)
      from r swallows have s0: "?Q (clock w)" by simp
      let ?js = "Request (clock w) GET (u @ ''/health'') # l @ Wait 2 # js"
      have mem: "Request t GET (u @ ''/health'') \<in> set ?js
                   \<longleftrightarrow> t = clock w \<or> Request t GET (u @ ''/health'') \<in> set js" for t
        using quiet_set by auto
      show ?thesis
        unfolding out
      proof (intro exI [of _ ?js] conjI allI impI)
        show "journal (snd (producer_health_loop net u d (sleep 2 w1))) = journal w @ ?js"
          unfolding js by (simp add: sleep_simps l)
        show "Request (clock w) GET (u @ ''/health'') \<in> set ?js"
          by simp
        show "Request (?A t + 2) GET (u @ ''/health'') \<in> set ?js"
          if "Request t GET (u @ ''/health'') \<in> set ?js \<and> ?U t \<and> ?Q t \<and> ?A t + 2 < d" for t
        proof -
          from that have "t = clock w \<or> Request t GET (u @ ''/health'') \<in> set js"
            unfolding mem by blast
          then have "Request (?A t + 2) GET (u @ ''/health'') \<in> set js"
          proof
            assume "t = clock w"
            with that first next_at show ?thesis by simp
          next
            assume "Request t GET (u @ ''/health'') \<in> set js"
            with that again show ?thesis by blast
          qed
          then show ?thesis unfolding mem by blast
        qed
        show "fst (producer_health_loop net u d (sleep 2 w1)) = Inl x
              \<longleftrightarrow> (\<exists>t. Request t GET (u @ ''/health'') \<in> set ?js
                       \<and> snd (net t GET (u @ ''/health'')) = Raises x \<and> \<not> request_exception x)"
          for x
        proof -
          have "(\<exists>t. Request t GET (u @ ''/health'') \<in> set ?js
                       \<and> snd (net t GET (u @ ''/health'')) = Raises x \<and> \<not> request_exception x)
                \<longleftrightarrow> (\<exists>t. Request t GET (u @ ''/health'') \<in> set js
                       \<and> snd (net t GET (u @ ''/health'')) = Raises x \<and> \<not> request_exception x)"
            unfolding mem using s0 by blast
          with leak show ?thesis by simp
        qed
      qed
    qed
  qed
qed

lemma consumer_health_loop_polls:
  "\<exists>js. journal (snd (consumer_health_loop net u d w)) = journal w @ js
        \<and> (\<forall>t. Request t GET (u @ ''/health'') \<in> set js
                \<and> \<not> healthy consumer_markers (snd (net t GET (u @ ''/health'')))
                \<and> arrival net t GET (u @ ''/health'') + 2 < d
              \<longrightarrow> Request (arrival net t GET (u @ ''/health'') + 2) GET (u @ ''/health'')
                    \<in> set js)"
proof (induction net u d w rule: consumer_health_loop.induct)
  case (1 net u d w)
  let ?S = "\<lambda>t. \<not> healthy consumer_markers (snd (net t GET (u @ ''/health'')))"
  let ?A = "\<lambda>t. arrival net t GET (u @ ''/health'')"
  show ?case
  proof (cases "clock w < d")
    case False
    then show ?thesis
      by (subst consumer_health_loop.simps) simp
  next
    case True
    obtain r w1 where poll: "consumer_health_poll net u w = (r, w1)"
      by (cases "consumer_health_poll net u w")
    from consumer_health_poll_trace [of net u w] poll
    have l: "journal w1 = journal w @ [Request (clock w) GET (u @ ''/health'')]"
      and verdict: "r \<longleftrightarrow> healthy consumer_markers (snd (net (clock w) GET (u @ ''/health'')))"
      by auto
    from consumer_health_poll_clock [of net u w] poll
    have at: "clock w1 = ?A (clock w)"
      by simp
    show ?thesis
    proof (cases r)
      case r: True
      with True poll have out: "consumer_health_loop net u d w = (True, w1)"
        by (subst consumer_health_loop.simps) simp
      show ?thesis
        unfolding out using l verdict r
        by (intro exI [of _ "[Request (clock w) GET (u @ ''/health'')]"]) auto
    next
      case r: False
      with True poll
      have out: "consumer_health_loop net u d w = consumer_health_loop net u d (sleep 2 w1)"
        by (subst consumer_health_loop.simps) simp
      from "1.IH" [OF True poll [symmetric] r] obtain js
        where js: "journal (snd (consumer_health_loop net u d (sleep 2 w1)))
                     = journal (sleep 2 w1) @ js"
          and again: "\<forall>t. Request t GET (u @ ''/health'') \<in> set js \<and> ?S t \<and> ?A t + 2 < d
                       \<longrightarrow> Request (?A t + 2) GET (u @ ''/health'') \<in> set js"
        by blast
      from consumer_health_loop_trace [of net u d "sleep 2 w1"] js
      have first: "clock (sleep 2 w1) < d
                       \<longrightarrow> Request (clock (sleep 2 w1)) GET (u @ ''/health'') \<in> set js"
        by auto
      have next_at: "clock (sleep 2 w1) = ?A (clock w) + 2"
        using at by (simp add: sleep_simps)
      let ?js = "Request (clock w) GET (u @ ''/health'') # Wait 2 # js"
      have mem: "Request t GET (u @ ''/health'') \<in> set ?js
                   \<longleftrightarrow> t = clock w \<or> Request t GET (u @ ''/health'') \<in> set js" for t
        by auto
      show ?thesis
        unfolding out
      proof (intro exI [of _ ?js] conjI allI impI)
        show "journal (snd (consumer_health_loop net u d (sleep 2 w1))) = journal w @ ?js"
          unfolding js by (simp add: sleep_simps l)
        show "Request (?A t + 2) GET (u @ ''/health'') \<in> set ?js"
          if "Request t GET (u @ ''/health'') \<in> set ?js \<and> ?S t \<and> ?A t + 2 < d" for t
        proof -
          from that have "t = clock w \<or> Request t GET (u @ ''/health'') \<in> set js"
            unfolding mem by blast
          then have "Request (?A t + 2) GET (u @ ''/health'') \<in> set js"
          proof
            assume "t = clock w"
            with that first next_at show ?thesis by simp
          next
            assume "Request t GET (u @ ''/health'') \<in> set js"
            with that again show ?thesis by blast
          qed
          then show ?thesis unfolding mem by blast
        qed
      qed
    qed
  qed
qed

text \<open>The two probes of one address, with all that is known of what they add to the journal.\<close>

lemma producer_wait_for_health_polls:
  "\<exists>js. journal (snd (producer_wait_for_health net u T w)) = journal w @ js
        \<and> polls_of u (clock w) (clock w + T) js
        \<and> (0 < T \<longrightarrow> Request (clock w) GET (u @ ''/health'') \<in> set js)
        \<and> (fst (producer_wait_for_health net u T w) = Inr True
             \<longleftrightarrow> (\<exists>t. Request t GET (u @ ''/health'') \<in> set js
                      \<and> healthy producer_markers (snd (net t GET (u @ ''/health'')))))
        \<and> (fst (producer_wait_for_health net u T w) = Inr False
             \<longrightarrow> clock w + T \<le> clock (snd (producer_wait_for_health net u T w)))
        \<and> clock w \<le> clock (snd (producer_wait_for_health net u T w))
        \<and> (\<forall>t. Request t GET (u @ ''/health'') \<in> set js
                \<and> \<not> healthy producer_markers (snd (net t GET (u @ ''/health'')))
                \<and> (\<forall>x. snd (net t GET (u @ ''/health'')) = Raises x \<longrightarrow> request_exception x)
                \<and> arrival net t GET (u @ ''/health'') + 2 < clock w + T
              \<longrightarrow> Request (arrival net t GET (u @ ''/health'') + 2) GET (u @ ''/health'')
                    \<in> set js)
        \<and> (\<forall>x. fst (producer_wait_for_health net u T w) = Inl x
              \<longleftrightarrow> (\<exists>t. Request t GET (u @ ''/health'') \<in> set js
                       \<and> snd (net t GET (u @ ''/health'')) = Raises x \<and> \<not> request_exception x))
        \<and> (fst (producer_wait_for_health net u T w) = Inr False
             \<longleftrightarrow> (\<forall>t. Request t GET (u @ ''/health'') \<in> set js
                      \<longrightarrow> \<not> healthy producer_markers (snd (net t GET (u @ ''/health'')))
                        \<and> (\<forall>x. snd (net t GET (u @ ''/health'')) = Raises x
                               \<longrightarrow> request_exception x)))"
proof -
  let ?r = "fst (producer_wait_for_health net u T w)"
  let ?H = "\<lambda>t. healthy producer_markers (snd (net t GET (u @ ''/health'')))"
  let ?Q = "\<lambda>t. \<forall>x. snd (net t GET (u @ ''/health'')) = Raises x \<longrightarrow> request_exception x"
  from producer_wait_for_health_trace [of net u T w] obtain js
    where js: "journal (snd (producer_wait_for_health net u T w)) = journal w @ js"
      and p: "polls_of u (clock w) (clock w + T) js"
      and first: "0 < T \<longrightarrow> Request (clock w) GET (u @ ''/health'') \<in> set js"
      and v: "?r = Inr True \<longleftrightarrow> (\<exists>t. Request t GET (u @ ''/health'') \<in> set js \<and> ?H t)"
      and f: "?r = Inr False
                \<longrightarrow> clock w + T \<le> clock (snd (producer_wait_for_health net u T w))"
      and m: "clock w \<le> clock (snd (producer_wait_for_health net u T w))"
    by blast
  from producer_health_loop_polls [of net u "clock w + T" w] obtain ks
    where ks: "journal (snd (producer_wait_for_health net u T w)) = journal w @ ks"
      and again: "\<forall>t. Request t GET (u @ ''/health'') \<in> set ks
                \<and> \<not> ?H t \<and> ?Q t
                \<and> arrival net t GET (u @ ''/health'') + 2 < clock w + T
              \<longrightarrow> Request (arrival net t GET (u @ ''/health'') + 2) GET (u @ ''/health'')
                    \<in> set ks"
      and leak: "\<forall>x. ?r = Inl x
              \<longleftrightarrow> (\<exists>t. Request t GET (u @ ''/health'') \<in> set ks
                       \<and> snd (net t GET (u @ ''/health'')) = Raises x \<and> \<not> request_exception x)"
    unfolding producer_wait_for_health_def by blast
  from js ks have same: "ks = js" by simp
  have none: "?r = Inr False
             \<longleftrightarrow> (\<forall>t. Request t GET (u @ ''/health'') \<in> set js \<longrightarrow> \<not> ?H t \<and> ?Q t)"
  proof
    assume r: "?r = Inr False"
    show "\<forall>t. Request t GET (u @ ''/health'') \<in> set js \<longrightarrow> \<not> ?H t \<and> ?Q t"
    proof (intro allI impI conjI)
      fix t assume t: "Request t GET (u @ ''/health'') \<in> set js"
      from r v t show "\<not> ?H t" by auto
      fix x assume "snd (net t GET (u @ ''/health'')) = Raises x"
      with r leak [unfolded same] t show "request_exception x" by auto
    qed
  next
    assume all: "\<forall>t. Request t GET (u @ ''/health'') \<in> set js \<longrightarrow> \<not> ?H t \<and> ?Q t"
    with v have "?r \<noteq> Inr True" by blast
    moreover from all leak [unfolded same] have "?r \<noteq> Inl x" for x by blast
    ultimately show "?r = Inr False"
      by (cases ?r) auto
  qed
  from js p first v f m again [unfolded same] leak [unfolded same] none
  show ?thesis
    by (intro exI [of _ js] conjI)
qed

lemma wait_for_health_polls:
  "\<exists>js. journal (snd (wait_for_health net u T w)) = journal w @ Wait 2 # js
        \<and> polls_of u (clock w + 2) (clock w + 2 + T) js
        \<and> (0 < T \<longrightarrow> Request (clock w + 2) GET (u @ ''/health'') \<in> set js)
        \<and> (fst (wait_for_health net u T w)
             \<longleftrightarrow> (\<exists>t. Request t GET (u @ ''/health'') \<in> set js
                      \<and> healthy consumer_markers (snd (net t GET (u @ ''/health'')))))
        \<and> (\<not> fst (wait_for_health net u T w)
             \<longrightarrow> clock w + 2 + T \<le> clock (snd (wait_for_health net u T w)))
        \<and> clock w + 2 \<le> clock (snd (wait_for_health net u T w))
        \<and> (\<forall>t. Request t GET (u @ ''/health'') \<in> set js
                \<and> \<not> healthy consumer_markers (snd (net t GET (u @ ''/health'')))
                \<and> arrival net t GET (u @ ''/health'') + 2 < clock w + 2 + T
              \<longrightarrow> Request (arrival net t GET (u @ ''/health'') + 2) GET (u @ ''/health'')
                    \<in> set js)"
proof -
  let ?r = "fst (wait_for_health net u T w)"
  let ?H = "\<lambda>t. healthy consumer_markers (snd (net t GET (u @ ''/health'')))"
  from wait_for_health_trace [of net u T w] obtain js
    where js: "journal (snd (wait_for_health net u T w)) = journal w @ Wait 2 # js"
      and p: "polls_of u (clock w + 2) (clock w + 2 + T) js"
      and first: "0 < T \<longrightarrow> Request (clock w + 2) GET (u @ ''/health'') \<in> set js"
      and v: "?r \<longleftrightarrow> (\<exists>t. Request t GET (u @ ''/health'') \<in> set js \<and> ?H t)"
      and f: "\<not> ?r \<longrightarrow> clock w + 2 + T \<le> clock (snd (wait_for_health net u T w))"
      and m: "clock w + 2 \<le> clock (snd (wait_for_health net u T w))"
    by blast
  from consumer_health_loop_polls [of net u "clock (sleep 2 w) + T" "sleep 2 w"] obtain ks
    where ks: "journal (snd (wait_for_health net u T w)) = journal w @ Wait 2 # ks"
      and again: "\<forall>t. Request t GET (u @ ''/health'') \<in> set ks
                \<and> \<not> ?H t
                \<and> arrival net t GET (u @ ''/health'') + 2 < clock w + 2 + T
              \<longrightarrow> Request (arrival net t GET (u @ ''/health'') + 2) GET (u @ ''/health'')
                    \<in> set ks"
    unfolding wait_for_health_def Let_def by (auto simp: sleep_simps)
  from js ks have same: "ks = js" by simp
  from js p first v f m again [unfolded same]
  show ?thesis
    by (intro exI [of _ js] conjI)
qed

text \<open>
  The producer's walk polls its first candidate at once; polls a candidate again two
  seconds after a swallowed reply while that moment is less than twenty seconds after
  the first poll of it; polls a candidate when every poll of the candidates before it
  was swallowed; and ends with an exception exactly when a poll raised one that is not
  a \<open>RequestException\<close>.
\<close>

lemma first_healthy_polls:
  "\<exists>js. journal (snd (first_healthy net cs w)) = journal w @ js
        \<and> (cs \<noteq> [] \<longrightarrow> Request (clock w) GET (hd cs @ ''/health'') \<in> set js)
        \<and> (distinct cs \<longrightarrow>
             (\<forall>c t. Request t GET (c @ ''/health'') \<in> set js
                   \<and> \<not> healthy producer_markers (snd (net t GET (c @ ''/health'')))
                   \<and> (\<forall>x. snd (net t GET (c @ ''/health'')) = Raises x \<longrightarrow> request_exception x)
                   \<and> (\<forall>t0. Request t0 GET (c @ ''/health'') \<in> set js
                         \<longrightarrow> arrival net t GET (c @ ''/health'') + 2 < t0 + 20)
                 \<longrightarrow> Request (arrival net t GET (c @ ''/health'') + 2) GET (c @ ''/health'')
                       \<in> set js))
        \<and> (\<forall>pre c post. cs = pre @ c # post
               \<and> (\<forall>c' t. c' \<in> set pre \<and> Request t GET (c' @ ''/health'') \<in> set js
                     \<longrightarrow> \<not> healthy producer_markers (snd (net t GET (c' @ ''/health'')))
                       \<and> (\<forall>x. snd (net t GET (c' @ ''/health'')) = Raises x
                              \<longrightarrow> request_exception x))
             \<longrightarrow> (\<exists>t. Request t GET (c @ ''/health'') \<in> set js))
        \<and> (\<forall>x. fst (first_healthy net cs w) = Inl x
              \<longleftrightarrow> (\<exists>t c. Request t GET (c @ ''/health'') \<in> set js
                       \<and> snd (net t GET (c @ ''/health'')) = Raises x
                       \<and> \<not> request_exception x))"
proof (induction cs arbitrary: w)
  case Nil
  show ?case by simp
next
  case (Cons c0 rest)
  let ?U = "\<lambda>t c. \<not> healthy producer_markers (snd (net t GET (c @ ''/health'')))"
  let ?Q = "\<lambda>t c. \<forall>x. snd (net t GET (c @ ''/health'')) = Raises x \<longrightarrow> request_exception x"
  let ?L = "\<lambda>t c x. snd (net t GET (c @ ''/health'')) = Raises x \<and> \<not> request_exception x"
  let ?A = "\<lambda>t c. arrival net t GET (c @ ''/health'')"
  obtain r1 w1 where probe: "producer_wait_for_health net c0 20 w = (r1, w1)"
    by (cases "producer_wait_for_health net c0 20 w")
  from producer_wait_for_health_polls [of net c0 20 w] probe obtain js1
    where j1: "journal w1 = journal w @ js1"
      and p1: "polls_of c0 (clock w) (clock w + 20) js1"
      and first1: "Request (clock w) GET (c0 @ ''/health'') \<in> set js1"
      and again1: "\<forall>t. Request t GET (c0 @ ''/health'') \<in> set js1
                \<and> ?U t c0 \<and> ?Q t c0 \<and> ?A t c0 + 2 < clock w + 20
              \<longrightarrow> Request (?A t c0 + 2) GET (c0 @ ''/health'') \<in> set js1"
      and leak1: "\<forall>x. r1 = Inl x
              \<longleftrightarrow> (\<exists>t. Request t GET (c0 @ ''/health'') \<in> set js1 \<and> ?L t c0 x)"
      and none1: "r1 = Inr False
             \<longleftrightarrow> (\<forall>t. Request t GET (c0 @ ''/health'') \<in> set js1 \<longrightarrow> ?U t c0 \<and> ?Q t c0)"
    by auto
  have only1: "m = GET \<and> v = c0 @ ''/health'' \<and> clock w \<le> t \<and> t < clock w + 20"
    if "Request t m v \<in> set js1" for t m v
    using polls_of_request [OF p1 that] .
  have c0_only: "c = c0" if "Request t GET (c @ ''/health'') \<in> set js1" for t c
    using only1 [OF that] by simp
  have repoll1: "Request (?A t c + 2) GET (c @ ''/health'') \<in> set js1"
    if t: "Request t GET (c @ ''/health'') \<in> set js1" and u: "?U t c" and q: "?Q t c"
      and early: "?A t c + 2 < clock w + 20" for t c
  proof -
    from c0_only [OF t] have c: "c = c0" .
    from t u q early again1 show ?thesis
      unfolding c by blast
  qed
  show ?case
  proof (cases "r1 = Inr False")
    case False
    then have out: "first_healthy net (c0 # rest) w
                      = ((case r1 of Inl x \<Rightarrow> Inl x | Inr _ \<Rightarrow> Inr (Some c0)), w1)"
      using probe by (cases r1) (auto split: bool.splits)
    from False none1 obtain tb
      where tb: "Request tb GET (c0 @ ''/health'') \<in> set js1" and bad: "\<not> (?U tb c0 \<and> ?Q tb c0)"
      by blast
    have a: "\<forall>c t. Request t GET (c @ ''/health'') \<in> set js1
                   \<and> ?U t c \<and> ?Q t c
                   \<and> (\<forall>t0. Request t0 GET (c @ ''/health'') \<in> set js1 \<longrightarrow> ?A t c + 2 < t0 + 20)
                 \<longrightarrow> Request (?A t c + 2) GET (c @ ''/health'') \<in> set js1"
    proof (intro allI impI, elim conjE)
      fix c t
      assume t: "Request t GET (c @ ''/health'') \<in> set js1" and u: "?U t c" and q: "?Q t c"
        and all: "\<forall>t0. Request t0 GET (c @ ''/health'') \<in> set js1 \<longrightarrow> ?A t c + 2 < t0 + 20"
      from c0_only [OF t] have c: "c = c0" .
      from all first1 have "?A t c + 2 < clock w + 20"
        unfolding c by blast
      from repoll1 [OF t u q this]
      show "Request (?A t c + 2) GET (c @ ''/health'') \<in> set js1" .
    qed
    have b: "\<forall>pre c post. c0 # rest = pre @ c # post
               \<and> (\<forall>c' t. c' \<in> set pre \<and> Request t GET (c' @ ''/health'') \<in> set js1
                     \<longrightarrow> ?U t c' \<and> ?Q t c')
             \<longrightarrow> (\<exists>t. Request t GET (c @ ''/health'') \<in> set js1)"
    proof (intro allI impI, elim conjE)
      fix pre c post
      assume split: "c0 # rest = pre @ c # post"
        and all: "\<forall>c' t. c' \<in> set pre \<and> Request t GET (c' @ ''/health'') \<in> set js1
                     \<longrightarrow> ?U t c' \<and> ?Q t c'"
      show "\<exists>t. Request t GET (c @ ''/health'') \<in> set js1"
      proof (cases pre)
        case Nil
        with split first1 show ?thesis by auto
      next
        case (Cons a pre')
        with split have "c0 \<in> set pre" by simp
        with all tb bad show ?thesis by blast
      qed
    qed
    have c: "\<forall>x. fst (first_healthy net (c0 # rest) w) = Inl x
              \<longleftrightarrow> (\<exists>t c. Request t GET (c @ ''/health'') \<in> set js1 \<and> ?L t c x)"
    proof (intro allI)
      fix x
      have "(\<exists>t c. Request t GET (c @ ''/health'') \<in> set js1 \<and> ?L t c x)
              \<longleftrightarrow> (\<exists>t. Request t GET (c0 @ ''/health'') \<in> set js1 \<and> ?L t c0 x)"
        using c0_only by blast
      with leak1 have "r1 = Inl x
              \<longleftrightarrow> (\<exists>t c. Request t GET (c @ ''/health'') \<in> set js1 \<and> ?L t c x)"
        by simp
      then show "fst (first_healthy net (c0 # rest) w) = Inl x
              \<longleftrightarrow> (\<exists>t c. Request t GET (c @ ''/health'') \<in> set js1 \<and> ?L t c x)"
        unfolding out by (cases r1) simp_all
    qed
    show ?thesis
    proof (intro exI [of _ js1] conjI impI)
      show "journal (snd (first_healthy net (c0 # rest) w)) = journal w @ js1"
        unfolding out using j1 by simp
      show "Request (clock w) GET (hd (c0 # rest) @ ''/health'') \<in> set js1"
        using first1 by simp
      show "\<forall>c t. Request t GET (c @ ''/health'') \<in> set js1
                   \<and> ?U t c \<and> ?Q t c
                   \<and> (\<forall>t0. Request t0 GET (c @ ''/health'') \<in> set js1 \<longrightarrow> ?A t c + 2 < t0 + 20)
                 \<longrightarrow> Request (?A t c + 2) GET (c @ ''/health'') \<in> set js1"
        by (rule a)
      show "\<forall>pre c post. c0 # rest = pre @ c # post
               \<and> (\<forall>c' t. c' \<in> set pre \<and> Request t GET (c' @ ''/health'') \<in> set js1
                     \<longrightarrow> ?U t c' \<and> ?Q t c')
             \<longrightarrow> (\<exists>t. Request t GET (c @ ''/health'') \<in> set js1)"
        by (rule b)
      show "\<forall>x. fst (first_healthy net (c0 # rest) w) = Inl x
              \<longleftrightarrow> (\<exists>t c. Request t GET (c @ ''/health'') \<in> set js1 \<and> ?L t c x)"
        by (rule c)
    qed
  next
    case r1: True
    with probe have out: "first_healthy net (c0 # rest) w = first_healthy net rest w1"
      by simp
    from r1 none1 have swallowed1: "?U t c0 \<and> ?Q t c0"
      if "Request t GET (c0 @ ''/health'') \<in> set js1" for t
      using that by blast
    from Cons.IH [of w1] obtain js2
      where j2: "journal (snd (first_healthy net rest w1)) = journal w1 @ js2"
        and again2: "distinct rest \<longrightarrow>
             (\<forall>c t. Request t GET (c @ ''/health'') \<in> set js2
                   \<and> ?U t c \<and> ?Q t c
                   \<and> (\<forall>t0. Request t0 GET (c @ ''/health'') \<in> set js2 \<longrightarrow> ?A t c + 2 < t0 + 20)
                 \<longrightarrow> Request (?A t c + 2) GET (c @ ''/health'') \<in> set js2)"
        and next2: "\<forall>pre c post. rest = pre @ c # post
               \<and> (\<forall>c' t. c' \<in> set pre \<and> Request t GET (c' @ ''/health'') \<in> set js2
                     \<longrightarrow> ?U t c' \<and> ?Q t c')
             \<longrightarrow> (\<exists>t. Request t GET (c @ ''/health'') \<in> set js2)"
        and leak2: "\<forall>x. fst (first_healthy net rest w1) = Inl x
              \<longleftrightarrow> (\<exists>t c. Request t GET (c @ ''/health'') \<in> set js2 \<and> ?L t c x)"
      by blast
    from first_healthy_trace [of net rest w1] j2
    have only2: "\<forall>t m v. Request t m v \<in> set js2
              \<longrightarrow> m = GET \<and> clock w1 \<le> t \<and> (\<exists>c. c \<in> set rest \<and> v = c @ ''/health'')"
      by auto
    have rest_only: "c \<in> set rest"
      if "Request t GET (c @ ''/health'') \<in> set js2" for t c
      using only2 that by auto
    have mem: "Request t GET (c @ ''/health'') \<in> set (js1 @ js2)
                 \<longleftrightarrow> Request t GET (c @ ''/health'') \<in> set js1
                     \<or> Request t GET (c @ ''/health'') \<in> set js2" for t c
      by simp
    have a: "Request (?A t c + 2) GET (c @ ''/health'') \<in> set (js1 @ js2)"
      if dist: "distinct (c0 # rest)"
        and t: "Request t GET (c @ ''/health'') \<in> set (js1 @ js2)"
        and u: "?U t c" and q: "?Q t c"
        and all: "\<forall>t0. Request t0 GET (c @ ''/health'') \<in> set (js1 @ js2)
                    \<longrightarrow> ?A t c + 2 < t0 + 20" for c t
    proof (cases "c = c0")
      case True
      from dist True have "c \<notin> set rest" by simp
      with rest_only [of t c] t have t1: "Request t GET (c @ ''/health'') \<in> set js1"
        unfolding mem by blast
      from all first1 have "?A t c + 2 < clock w + 20"
        unfolding True mem by blast
      from repoll1 [OF t1 u q this] show ?thesis
        unfolding mem by blast
    next
      case False
      with c0_only [of t c] t have t2: "Request t GET (c @ ''/health'') \<in> set js2"
        unfolding mem by blast
      from all have all2: "\<forall>t0. Request t0 GET (c @ ''/health'') \<in> set js2
                    \<longrightarrow> ?A t c + 2 < t0 + 20"
        unfolding mem by blast
      from dist have "distinct rest" by simp
      with again2 t2 u q all2 have "Request (?A t c + 2) GET (c @ ''/health'') \<in> set js2"
        by blast
      then show ?thesis
        unfolding mem by blast
    qed
    have b: "\<exists>t. Request t GET (c @ ''/health'') \<in> set (js1 @ js2)"
      if split: "c0 # rest = pre @ c # post"
        and all: "\<forall>c' t. c' \<in> set pre \<and> Request t GET (c' @ ''/health'') \<in> set (js1 @ js2)
                     \<longrightarrow> ?U t c' \<and> ?Q t c'" for pre c post
    proof (cases pre)
      case Nil
      with split have "c = c0" by simp
      with first1 show ?thesis
        unfolding mem by blast
    next
      case (Cons a pre')
      with split have rest: "rest = pre' @ c # post" by simp
      from all Cons
      have "\<forall>c' t. c' \<in> set pre' \<and> Request t GET (c' @ ''/health'') \<in> set js2
                     \<longrightarrow> ?U t c' \<and> ?Q t c'"
        unfolding mem by auto
      with next2 rest have "\<exists>t. Request t GET (c @ ''/health'') \<in> set js2"
        by blast
      then show ?thesis
        unfolding mem by blast
    qed
    have c: "fst (first_healthy net (c0 # rest) w) = Inl x
              \<longleftrightarrow> (\<exists>t c. Request t GET (c @ ''/health'') \<in> set (js1 @ js2) \<and> ?L t c x)" for x
    proof -
      have "\<not> ?L t c x" if "Request t GET (c @ ''/health'') \<in> set js1" for t c
      proof -
        from c0_only [OF that] have "c = c0" .
        with swallowed1 [of t] that show ?thesis by blast
      qed
      then have "(\<exists>t c. Request t GET (c @ ''/health'') \<in> set (js1 @ js2) \<and> ?L t c x)
              \<longleftrightarrow> (\<exists>t c. Request t GET (c @ ''/health'') \<in> set js2 \<and> ?L t c x)"
        unfolding mem by blast
      with leak2 show ?thesis
        unfolding out by simp
    qed
    show ?thesis
    proof (intro exI [of _ "js1 @ js2"] conjI impI)
      show "journal (snd (first_healthy net (c0 # rest) w)) = journal w @ js1 @ js2"
        unfolding out j2 j1 by simp
      show "Request (clock w) GET (hd (c0 # rest) @ ''/health'') \<in> set (js1 @ js2)"
        using first1 by simp
      show "\<forall>c t. Request t GET (c @ ''/health'') \<in> set (js1 @ js2)
                   \<and> ?U t c \<and> ?Q t c
                   \<and> (\<forall>t0. Request t0 GET (c @ ''/health'') \<in> set (js1 @ js2)
                         \<longrightarrow> ?A t c + 2 < t0 + 20)
                 \<longrightarrow> Request (?A t c + 2) GET (c @ ''/health'') \<in> set (js1 @ js2)"
        if "distinct (c0 # rest)"
        using a [OF that] by (intro allI impI) (elim conjE)
      show "\<forall>pre c post. c0 # rest = pre @ c # post
               \<and> (\<forall>c' t. c' \<in> set pre \<and> Request t GET (c' @ ''/health'') \<in> set (js1 @ js2)
                     \<longrightarrow> ?U t c' \<and> ?Q t c')
             \<longrightarrow> (\<exists>t. Request t GET (c @ ''/health'') \<in> set (js1 @ js2))"
        using b by (intro allI impI) (elim conjE)
      show "\<forall>x. fst (first_healthy net (c0 # rest) w) = Inl x
              \<longleftrightarrow> (\<exists>t c. Request t GET (c @ ''/health'') \<in> set (js1 @ js2) \<and> ?L t c x)"
        using c by (intro allI)
    qed
  qed
qed

text \<open>
  The same for the consumer's two addresses, and how the start of a worker depends on
  what the probe gives.
\<close>

lemma consumer_api_url_polls:
  "\<exists>js. journal (snd (consumer_api_url net h i w)) = journal w @ js
        \<and> Request (clock w + 2) GET (h @ ''/health'') \<in> set js
        \<and> (h \<noteq> i \<longrightarrow>
             (\<forall>c t. Request t GET (c @ ''/health'') \<in> set js
                   \<and> \<not> healthy consumer_markers (snd (net t GET (c @ ''/health'')))
                   \<and> (\<forall>t0. Request t0 GET (c @ ''/health'') \<in> set js
                         \<longrightarrow> arrival net t GET (c @ ''/health'') + 2 < t0 + 60)
                 \<longrightarrow> Request (arrival net t GET (c @ ''/health'') + 2) GET (c @ ''/health'')
                       \<in> set js))
        \<and> ((\<forall>t. Request t GET (h @ ''/health'') \<in> set js
                 \<longrightarrow> \<not> healthy consumer_markers (snd (net t GET (h @ ''/health''))))
             \<longrightarrow> (\<exists>t. Request t GET (i @ ''/health'') \<in> set js))"
proof -
  let ?U = "\<lambda>t c. \<not> healthy consumer_markers (snd (net t GET (c @ ''/health'')))"
  let ?A = "\<lambda>t c. arrival net t GET (c @ ''/health'')"
  obtain r1 w1 where probe1: "wait_for_health net h 60 w = (r1, w1)"
    by (cases "wait_for_health net h 60 w")
  from wait_for_health_polls [of net h 60 w] probe1 obtain js1
    where j1: "journal w1 = journal w @ Wait 2 # js1"
      and p1: "polls_of h (clock w + 2) (clock w + 2 + 60) js1"
      and first1: "Request (clock w + 2) GET (h @ ''/health'') \<in> set js1"
      and v1: "r1 \<longleftrightarrow> (\<exists>t. Request t GET (h @ ''/health'') \<in> set js1 \<and> \<not> ?U t h)"
      and again1: "\<forall>t. Request t GET (h @ ''/health'') \<in> set js1
                \<and> ?U t h \<and> ?A t h + 2 < clock w + 2 + 60
              \<longrightarrow> Request (?A t h + 2) GET (h @ ''/health'') \<in> set js1"
    by auto
  have only1: "m = GET \<and> v = h @ ''/health'' \<and> clock w + 2 \<le> t \<and> t < clock w + 2 + 60"
    if "Request t m v \<in> set js1" for t m v
    using polls_of_request [OF p1 that] .
  have h_only: "c = h" if "Request t GET (c @ ''/health'') \<in> set js1" for t c
    using only1 [OF that] by simp
  have repoll1: "Request (?A t c + 2) GET (c @ ''/health'') \<in> set js1"
    if t: "Request t GET (c @ ''/health'') \<in> set js1" and u: "?U t c"
      and early: "?A t c + 2 < clock w + 2 + 60" for t c
  proof -
    from h_only [OF t] have c: "c = h" .
    from t u early again1 show ?thesis
      unfolding c by blast
  qed
  show ?thesis
  proof (cases r1)
    case True
    with probe1 have out: "consumer_api_url net h i w = (Some h, w1)"
      by (simp add: consumer_api_url_def)
    have mem: "Request t GET (c @ ''/health'') \<in> set (Wait 2 # js1)
                 \<longleftrightarrow> Request t GET (c @ ''/health'') \<in> set js1" for t c
      by simp
    from True v1 obtain tg
      where tg: "Request tg GET (h @ ''/health'') \<in> set js1" and good: "\<not> ?U tg h"
      by blast
    have a: "\<forall>c t. Request t GET (c @ ''/health'') \<in> set (Wait 2 # js1)
                   \<and> ?U t c
                   \<and> (\<forall>t0. Request t0 GET (c @ ''/health'') \<in> set (Wait 2 # js1)
                         \<longrightarrow> ?A t c + 2 < t0 + 60)
                 \<longrightarrow> Request (?A t c + 2) GET (c @ ''/health'') \<in> set (Wait 2 # js1)"
      unfolding mem
    proof (intro allI impI, elim conjE)
      fix c t
      assume t: "Request t GET (c @ ''/health'') \<in> set js1" and u: "?U t c"
        and all: "\<forall>t0. Request t0 GET (c @ ''/health'') \<in> set js1 \<longrightarrow> ?A t c + 2 < t0 + 60"
      from h_only [OF t] have c: "c = h" .
      from all first1 have "?A t c + 2 < clock w + 2 + 60"
        unfolding c by fastforce
      from repoll1 [OF t u this]
      show "Request (?A t c + 2) GET (c @ ''/health'') \<in> set js1" .
    qed
    have b: "(\<forall>t. Request t GET (h @ ''/health'') \<in> set (Wait 2 # js1) \<longrightarrow> ?U t h)
             \<longrightarrow> (\<exists>t. Request t GET (i @ ''/health'') \<in> set (Wait 2 # js1))"
      unfolding mem using tg good by blast
    show ?thesis
    proof (intro exI [of _ "Wait 2 # js1"] conjI impI)
      show "journal (snd (consumer_api_url net h i w)) = journal w @ Wait 2 # js1"
        unfolding out using j1 by simp
      show "Request (clock w + 2) GET (h @ ''/health'') \<in> set (Wait 2 # js1)"
        using first1 by simp
      show "\<forall>c t. Request t GET (c @ ''/health'') \<in> set (Wait 2 # js1)
                   \<and> ?U t c
                   \<and> (\<forall>t0. Request t0 GET (c @ ''/health'') \<in> set (Wait 2 # js1)
                         \<longrightarrow> ?A t c + 2 < t0 + 60)
                 \<longrightarrow> Request (?A t c + 2) GET (c @ ''/health'') \<in> set (Wait 2 # js1)"
        by (rule a)
      show "\<exists>t. Request t GET (i @ ''/health'') \<in> set (Wait 2 # js1)"
        if "\<forall>t. Request t GET (h @ ''/health'') \<in> set (Wait 2 # js1) \<longrightarrow> ?U t h"
        using b that by (rule mp)
    qed
  next
    case r1: False
    obtain r2 w2 where probe2: "wait_for_health net i 60 w1 = (r2, w2)"
      by (cases "wait_for_health net i 60 w1")
    from wait_for_health_polls [of net i 60 w1] probe2 obtain js2
      where j2: "journal w2 = journal w1 @ Wait 2 # js2"
        and p2: "polls_of i (clock w1 + 2) (clock w1 + 2 + 60) js2"
        and first2: "Request (clock w1 + 2) GET (i @ ''/health'') \<in> set js2"
        and again2: "\<forall>t. Request t GET (i @ ''/health'') \<in> set js2
                \<and> ?U t i \<and> ?A t i + 2 < clock w1 + 2 + 60
              \<longrightarrow> Request (?A t i + 2) GET (i @ ''/health'') \<in> set js2"
      by auto
    have only2: "m = GET \<and> v = i @ ''/health'' \<and> clock w1 + 2 \<le> t \<and> t < clock w1 + 2 + 60"
      if "Request t m v \<in> set js2" for t m v
      using polls_of_request [OF p2 that] .
    have i_only: "c = i" if "Request t GET (c @ ''/health'') \<in> set js2" for t c
      using only2 [OF that] by simp
    let ?js = "Wait 2 # js1 @ Wait 2 # js2"
    have mem: "Request t GET (c @ ''/health'') \<in> set ?js
                 \<longleftrightarrow> Request t GET (c @ ''/health'') \<in> set js1
                     \<or> Request t GET (c @ ''/health'') \<in> set js2" for t c
      by auto
    from r1 probe1 probe2
    have out: "consumer_api_url net h i w = ((if r2 then Some i else None), w2)"
      by (simp add: consumer_api_url_def)
    have a: "Request (?A t c + 2) GET (c @ ''/health'') \<in> set ?js"
      if diff: "h \<noteq> i"
        and t: "Request t GET (c @ ''/health'') \<in> set ?js" and u: "?U t c"
        and all: "\<forall>t0. Request t0 GET (c @ ''/health'') \<in> set ?js \<longrightarrow> ?A t c + 2 < t0 + 60"
      for c t
    proof (cases "c = h")
      case True
      with diff i_only [of t c] t have t1: "Request t GET (c @ ''/health'') \<in> set js1"
        unfolding mem by blast
      from first1 have "Request (clock w + 2) GET (c @ ''/health'') \<in> set ?js"
        unfolding True mem by blast
      with all have "?A t c + 2 < clock w + 2 + 60"
        by fastforce
      from repoll1 [OF t1 u this] show ?thesis
        unfolding mem by blast
    next
      case False
      with h_only [of t c] t have t2: "Request t GET (c @ ''/health'') \<in> set js2"
        unfolding mem by blast
      from i_only [OF t2] have c: "c = i" .
      from first2 have "Request (clock w1 + 2) GET (c @ ''/health'') \<in> set ?js"
        unfolding c mem by blast
      with all have "?A t c + 2 < clock w1 + 2 + 60"
        by fastforce
      with t2 u again2 have "Request (?A t c + 2) GET (c @ ''/health'') \<in> set js2"
        unfolding c by blast
      then show ?thesis
        unfolding mem by blast
    qed
    show ?thesis
    proof (intro exI [of _ ?js] conjI impI)
      show "journal (snd (consumer_api_url net h i w)) = journal w @ ?js"
        unfolding out using j1 j2 by simp
      show "Request (clock w + 2) GET (h @ ''/health'') \<in> set ?js"
        using first1 unfolding mem by blast
      show "\<forall>c t. Request t GET (c @ ''/health'') \<in> set ?js
                   \<and> ?U t c
                   \<and> (\<forall>t0. Request t0 GET (c @ ''/health'') \<in> set ?js
                         \<longrightarrow> ?A t c + 2 < t0 + 60)
                 \<longrightarrow> Request (?A t c + 2) GET (c @ ''/health'') \<in> set ?js"
        if "h \<noteq> i"
        using a [OF that] by (intro allI impI) (elim conjE)
      show "\<exists>t. Request t GET (i @ ''/health'') \<in> set ?js"
        using first2 unfolding mem by blast
    qed
  qed
qed

lemma start_producer_api_not_healthy:
  assumes "map_of (containers_ips pm) n = Some ip" and "ip \<noteq> []"
  shows "(fst (start_producer pm net n vc w) = Failed n NotHealthy
            \<longleftrightarrow> fst (first_healthy net
                       [''http://'' @ n @ '':5000'', ''http://'' @ ip @ '':5000''] w) = Inr None)
         \<and> (\<forall>x. fst (first_healthy net
                       [''http://'' @ n @ '':5000'', ''http://'' @ ip @ '':5000''] w) = Inl x
                \<longrightarrow> fst (start_producer pm net n vc w) = Failed n (Raised x))"
proof -
  let ?cs = "[''http://'' @ n @ '':5000'', ''http://'' @ ip @ '':5000'']"
  obtain r w1 where walk: "first_healthy net ?cs w = (r, w1)"
    by (cases "first_healthy net ?cs w")
  show ?thesis
  proof (cases r)
    case (Inl x)
    with walk assms show ?thesis
      by (simp add: start_producer_def Let_def producer_start_failed_def)
  next
    case (Inr found)
    show ?thesis
    proof (cases found)
      case None
      with Inr walk assms show ?thesis
        by (simp add: start_producer_def Let_def)
    next
      case (Some api_url)
      with Inr walk assms show ?thesis
        by (simp add: start_producer_def Let_def producer_start_failed_def
            split: prod.splits option.splits)
    qed
  qed
qed

lemma start_consumer_api_not_healthy:
  assumes "map_of (consumer_configs cm) (first_field n) = Some cc"
    and "ip_address box = Some ip"
  shows "fst (start_consumer cm net n box w) = Failed n NotHealthy
            \<longleftrightarrow> fst (consumer_api_url net (''http://'' @ n @ '':5000'')
                       (''http://'' @ ip @ '':5000'') w) = None"
proof -
  obtain r w1
    where walk: "consumer_api_url net (''http://'' @ n @ '':5000'')
                   (''http://'' @ ip @ '':5000'') w = (r, w1)"
    by (cases "consumer_api_url net (''http://'' @ n @ '':5000'')
                 (''http://'' @ ip @ '':5000'') w")
  show ?thesis
  proof (cases r)
    case None
    with walk assms show ?thesis
      by (simp add: start_consumer_def Let_def)
  next
    case (Some api_url)
    with walk assms show ?thesis
      by (simp add: start_consumer_def Let_def consumer_start_failed_def
          split: prod.splits option.splits sum.splits)
  qed
qed
text \<open>
  The producer's walk, said of what it adds to the journal: which requests it makes and
  when the first is made, when a candidate is accepted, in which order and within which
  time the candidates are polled, when a candidate is polled again, when the next
  candidate is polled, and when the walk ends with no candidate or with an exception.
\<close>

lemma producer_probe:
  "(\<forall>t m v. Request t m v \<in> set (since w (snd (first_healthy net cs w)))
         \<longrightarrow> m = GET \<and> clock w \<le> t \<and> (\<exists>c. c \<in> set cs \<and> v = c @ ''/health''))
    \<and> (cs \<noteq> [] \<longrightarrow> Request (clock w) GET (hd cs @ ''/health'')
            \<in> set (since w (snd (first_healthy net cs w))))
    \<and> (\<forall>c. fst (first_healthy net cs w) = Inr (Some c)
            \<longleftrightarrow> (\<exists>t. Request t GET (c @ ''/health'') \<in> set (since w (snd (first_healthy net cs w)))
                     \<and> healthy producer_markers (snd (net t GET (c @ ''/health'')))))
    \<and> (distinct cs \<longrightarrow>
            (\<forall>c t t0. Request t GET (c @ ''/health'')
                    \<in> set (since w (snd (first_healthy net cs w)))
                  \<and> Request t0 GET (c @ ''/health'')
                          \<in> set (since w (snd (first_healthy net cs w)))
                \<longrightarrow> t < t0 + 20)
          \<and> (\<forall>pre c post c' t'. cs = pre @ c # post \<and> c' \<in> set post
                  \<and> Request t' GET (c' @ ''/health'')
                          \<in> set (since w (snd (first_healthy net cs w)))
                \<longrightarrow> (\<exists>t0. Request t0 GET (c @ ''/health'')
                        \<in> set (since w (snd (first_healthy net cs w))) \<and> t0 + 20 \<le> t')
                  \<and> (\<forall>t. Request t GET (c @ ''/health'')
                          \<in> set (since w (snd (first_healthy net cs w)))
                        \<longrightarrow> \<not> healthy producer_markers (snd (net t GET (c @ ''/health''))))))
    \<and> (distinct cs \<longrightarrow>
            (\<forall>c t. Request t GET (c @ ''/health'') \<in> set (since w (snd (first_healthy net cs w)))
                  \<and> \<not> healthy producer_markers (snd (net t GET (c @ ''/health'')))
                  \<and> (\<forall>x. snd (net t GET (c @ ''/health'')) = Raises x \<longrightarrow> request_exception x)
                  \<and> (\<forall>t0. Request t0 GET (c @ ''/health'')
                          \<in> set (since w (snd (first_healthy net cs w)))
                        \<longrightarrow> arrival net t GET (c @ ''/health'') + 2 < t0 + 20)
                \<longrightarrow> Request (arrival net t GET (c @ ''/health'') + 2) GET (c @ ''/health'')
                      \<in> set (since w (snd (first_healthy net cs w)))))
    \<and> (\<forall>pre c post. cs = pre @ c # post
              \<and> (\<forall>c' t. c' \<in> set pre \<and> Request t GET (c' @ ''/health'')
                      \<in> set (since w (snd (first_healthy net cs w)))
                    \<longrightarrow> \<not> healthy producer_markers (snd (net t GET (c' @ ''/health'')))
                      \<and> (\<forall>x. snd (net t GET (c' @ ''/health'')) = Raises x
                             \<longrightarrow> request_exception x))
            \<longrightarrow> (\<exists>t. Request t GET (c @ ''/health'')
                    \<in> set (since w (snd (first_healthy net cs w)))))
    \<and> (fst (first_healthy net cs w) = Inr None
            \<longleftrightarrow> (\<forall>t c. Request t GET (c @ ''/health'')
                    \<in> set (since w (snd (first_healthy net cs w)))
                     \<longrightarrow> \<not> healthy producer_markers (snd (net t GET (c @ ''/health'')))
                       \<and> (\<forall>x. snd (net t GET (c @ ''/health'')) = Raises x
                              \<longrightarrow> request_exception x)))
    \<and> (\<forall>x. fst (first_healthy net cs w) = Inl x
            \<longleftrightarrow> (\<exists>t c. Request t GET (c @ ''/health'')
                    \<in> set (since w (snd (first_healthy net cs w)))
                     \<and> snd (net t GET (c @ ''/health'')) = Raises x
                     \<and> \<not> request_exception x))"
proof -
  let ?r = "fst (first_healthy net cs w)"
  from first_healthy_trace [of net cs w] obtain js
    where js: "journal (snd (first_healthy net cs w)) = journal w @ js"
      and only: "\<forall>t m v. Request t m v \<in> set js
              \<longrightarrow> m = GET \<and> clock w \<le> t \<and> (\<exists>c. c \<in> set cs \<and> v = c @ ''/health'')"
      and accept: "\<forall>c. fst (first_healthy net cs w) = Inr (Some c)
              \<longleftrightarrow> (\<exists>t. Request t GET (c @ ''/health'') \<in> set js
                       \<and> healthy producer_markers (snd (net t GET (c @ ''/health''))))"
      and order: "distinct cs \<longrightarrow>
              (\<forall>c t t0. Request t GET (c @ ''/health'') \<in> set js
                    \<and> Request t0 GET (c @ ''/health'') \<in> set js
                  \<longrightarrow> t < t0 + 20)
            \<and> (\<forall>pre c post c' t'. cs = pre @ c # post \<and> c' \<in> set post
                    \<and> Request t' GET (c' @ ''/health'') \<in> set js
                  \<longrightarrow> (\<exists>t0. Request t0 GET (c @ ''/health'') \<in> set js \<and> t0 + 20 \<le> t')
                    \<and> (\<forall>t. Request t GET (c @ ''/health'') \<in> set js
                          \<longrightarrow> \<not> healthy producer_markers (snd (net t GET (c @ ''/health'')))))"
    by blast
  from first_healthy_polls [of net cs w] obtain ks
    where ks: "journal (snd (first_healthy net cs w)) = journal w @ ks"
      and first: "cs \<noteq> [] \<longrightarrow> Request (clock w) GET (hd cs @ ''/health'') \<in> set ks"
      and again: "distinct cs \<longrightarrow>
              (\<forall>c t. Request t GET (c @ ''/health'') \<in> set ks
                    \<and> \<not> healthy producer_markers (snd (net t GET (c @ ''/health'')))
                    \<and> (\<forall>x. snd (net t GET (c @ ''/health'')) = Raises x \<longrightarrow> request_exception x)
                    \<and> (\<forall>t0. Request t0 GET (c @ ''/health'') \<in> set ks
                          \<longrightarrow> arrival net t GET (c @ ''/health'') + 2 < t0 + 20)
                  \<longrightarrow> Request (arrival net t GET (c @ ''/health'') + 2) GET (c @ ''/health'')
                        \<in> set ks)"
      and nxt: "(\<forall>pre c post. cs = pre @ c # post
                \<and> (\<forall>c' t. c' \<in> set pre \<and> Request t GET (c' @ ''/health'') \<in> set ks
                      \<longrightarrow> \<not> healthy producer_markers (snd (net t GET (c' @ ''/health'')))
                        \<and> (\<forall>x. snd (net t GET (c' @ ''/health'')) = Raises x
                               \<longrightarrow> request_exception x))
              \<longrightarrow> (\<exists>t. Request t GET (c @ ''/health'') \<in> set ks))"
      and leak: "\<forall>x. fst (first_healthy net cs w) = Inl x
              \<longleftrightarrow> (\<exists>t c. Request t GET (c @ ''/health'') \<in> set ks
                       \<and> snd (net t GET (c @ ''/health'')) = Raises x
                       \<and> \<not> request_exception x)"
    by blast
  from js ks have same: "ks = js" by simp
  note leak' = leak [unfolded same]
  have none: "fst (first_healthy net cs w) = Inr None
              \<longleftrightarrow> (\<forall>t c. Request t GET (c @ ''/health'') \<in> set js
                       \<longrightarrow> \<not> healthy producer_markers (snd (net t GET (c @ ''/health'')))
                         \<and> (\<forall>x. snd (net t GET (c @ ''/health'')) = Raises x
                                \<longrightarrow> request_exception x))"
  proof
    assume r: "?r = Inr None"
    show "\<forall>t c. Request t GET (c @ ''/health'') \<in> set js
               \<longrightarrow> \<not> healthy producer_markers (snd (net t GET (c @ ''/health'')))
                 \<and> (\<forall>x. snd (net t GET (c @ ''/health'')) = Raises x
                        \<longrightarrow> request_exception x)"
    proof (intro allI impI conjI)
      fix t c
      assume t: "Request t GET (c @ ''/health'') \<in> set js"
      show "\<not> healthy producer_markers (snd (net t GET (c @ ''/health'')))"
      proof
        assume "healthy producer_markers (snd (net t GET (c @ ''/health'')))"
        with t accept have "?r = Inr (Some c)" by blast
        with r show False by simp
      qed
      fix x
      assume x: "snd (net t GET (c @ ''/health'')) = Raises x"
      show "request_exception x"
      proof (rule ccontr)
        assume "\<not> request_exception x"
        with t x leak' have "?r = Inl x" by blast
        with r show False by simp
      qed
    qed
  next
    assume all: "\<forall>t c. Request t GET (c @ ''/health'') \<in> set js
               \<longrightarrow> \<not> healthy producer_markers (snd (net t GET (c @ ''/health'')))
                 \<and> (\<forall>x. snd (net t GET (c @ ''/health'')) = Raises x
                        \<longrightarrow> request_exception x)"
    have no_some: "?r \<noteq> Inr (Some c)" for c
      using accept all by blast
    have no_exn: "?r \<noteq> Inl x" for x
      using leak' all by blast
    show "?r = Inr None"
    proof (cases ?r)
      case (Inl y)
      with no_exn [of y] show ?thesis by simp
    next
      case (Inr found)
      show ?thesis
      proof (cases found)
        case None
        with Inr show ?thesis by simp
      next
        case (Some c)
        with Inr no_some [of c] show ?thesis by simp
      qed
    qed
  qed
  note s = since_append [OF js]
  from only first [unfolded same] accept order again [unfolded same] nxt [unfolded same]
    none leak'
  show ?thesis
    unfolding s by (intro conjI)
qed

text \<open>The consumer's choice between its two addresses, in the same terms.\<close>

lemma consumer_probe:
  "(\<forall>t m v. Request t m v \<in> set (since w (snd (consumer_api_url net h i w)))
         \<longrightarrow> m = GET \<and> clock w \<le> t \<and> (v = h @ ''/health'' \<or> v = i @ ''/health''))
    \<and> Request (clock w + 2) GET (h @ ''/health'')
            \<in> set (since w (snd (consumer_api_url net h i w)))
    \<and> (\<forall>c. fst (consumer_api_url net h i w) = Some c
            \<longleftrightarrow> (\<exists>t. Request t GET (c @ ''/health'')
                    \<in> set (since w (snd (consumer_api_url net h i w)))
                     \<and> healthy consumer_markers (snd (net t GET (c @ ''/health'')))))
    \<and> (h \<noteq> i \<longrightarrow>
            (\<forall>c t t0. Request t GET (c @ ''/health'')
                    \<in> set (since w (snd (consumer_api_url net h i w)))
                  \<and> Request t0 GET (c @ ''/health'')
                          \<in> set (since w (snd (consumer_api_url net h i w)))
                \<longrightarrow> t < t0 + 60)
          \<and> (\<forall>t'. Request t' GET (i @ ''/health'')
                  \<in> set (since w (snd (consumer_api_url net h i w)))
                \<longrightarrow> (\<exists>t0. Request t0 GET (h @ ''/health'')
                        \<in> set (since w (snd (consumer_api_url net h i w))) \<and> t0 + 60 \<le> t')
                  \<and> (\<forall>t. Request t GET (h @ ''/health'')
                          \<in> set (since w (snd (consumer_api_url net h i w)))
                        \<longrightarrow> \<not> healthy consumer_markers (snd (net t GET (h @ ''/health''))))))
    \<and> (h \<noteq> i \<longrightarrow>
            (\<forall>c t. Request t GET (c @ ''/health'')
                    \<in> set (since w (snd (consumer_api_url net h i w)))
                  \<and> \<not> healthy consumer_markers (snd (net t GET (c @ ''/health'')))
                  \<and> (\<forall>t0. Request t0 GET (c @ ''/health'')
                          \<in> set (since w (snd (consumer_api_url net h i w)))
                        \<longrightarrow> arrival net t GET (c @ ''/health'') + 2 < t0 + 60)
                \<longrightarrow> Request (arrival net t GET (c @ ''/health'') + 2) GET (c @ ''/health'')
                      \<in> set (since w (snd (consumer_api_url net h i w)))))
    \<and> ((\<forall>t. Request t GET (h @ ''/health'') \<in> set (since w (snd (consumer_api_url net h i w)))
              \<longrightarrow> \<not> healthy consumer_markers (snd (net t GET (h @ ''/health''))))
            \<longrightarrow> (\<exists>t. Request t GET (i @ ''/health'')
                    \<in> set (since w (snd (consumer_api_url net h i w)))))
    \<and> (fst (consumer_api_url net h i w) = None
            \<longleftrightarrow> (\<forall>t c. Request t GET (c @ ''/health'')
                    \<in> set (since w (snd (consumer_api_url net h i w)))
                     \<longrightarrow> \<not> healthy consumer_markers (snd (net t GET (c @ ''/health'')))))"
proof -
  let ?r = "fst (consumer_api_url net h i w)"
  from consumer_api_url_trace [of net h i w] obtain js
    where js: "journal (snd (consumer_api_url net h i w)) = journal w @ js"
      and only: "\<forall>t m v. Request t m v \<in> set js
              \<longrightarrow> m = GET \<and> clock w \<le> t \<and> (v = h @ ''/health'' \<or> v = i @ ''/health'')"
      and accept: "\<forall>c. fst (consumer_api_url net h i w) = Some c
              \<longleftrightarrow> (\<exists>t. Request t GET (c @ ''/health'') \<in> set js
                       \<and> healthy consumer_markers (snd (net t GET (c @ ''/health''))))"
      and order: "h \<noteq> i \<longrightarrow>
              (\<forall>c t t0. Request t GET (c @ ''/health'') \<in> set js
                    \<and> Request t0 GET (c @ ''/health'') \<in> set js
                  \<longrightarrow> t < t0 + 60)
            \<and> (\<forall>t'. Request t' GET (i @ ''/health'') \<in> set js
                  \<longrightarrow> (\<exists>t0. Request t0 GET (h @ ''/health'') \<in> set js \<and> t0 + 60 \<le> t')
                    \<and> (\<forall>t. Request t GET (h @ ''/health'') \<in> set js
                          \<longrightarrow> \<not> healthy consumer_markers (snd (net t GET (h @ ''/health'')))))"
    by blast
  from consumer_api_url_polls [of net h i w] obtain ks
    where ks: "journal (snd (consumer_api_url net h i w)) = journal w @ ks"
      and first: "Request (clock w + 2) GET (h @ ''/health'') \<in> set ks"
      and again: "h \<noteq> i \<longrightarrow>
              (\<forall>c t. Request t GET (c @ ''/health'') \<in> set ks
                    \<and> \<not> healthy consumer_markers (snd (net t GET (c @ ''/health'')))
                    \<and> (\<forall>t0. Request t0 GET (c @ ''/health'') \<in> set ks
                          \<longrightarrow> arrival net t GET (c @ ''/health'') + 2 < t0 + 60)
                  \<longrightarrow> Request (arrival net t GET (c @ ''/health'') + 2) GET (c @ ''/health'')
                        \<in> set ks)"
      and nxt: "(\<forall>t. Request t GET (h @ ''/health'') \<in> set ks
                \<longrightarrow> \<not> healthy consumer_markers (snd (net t GET (h @ ''/health''))))
              \<longrightarrow> (\<exists>t. Request t GET (i @ ''/health'') \<in> set ks)"
    by blast
  from js ks have same: "ks = js" by simp
  have none: "fst (consumer_api_url net h i w) = None
              \<longleftrightarrow> (\<forall>t c. Request t GET (c @ ''/health'') \<in> set js
                       \<longrightarrow> \<not> healthy consumer_markers (snd (net t GET (c @ ''/health''))))"
  proof
    assume r: "?r = None"
    show "\<forall>t c. Request t GET (c @ ''/health'') \<in> set js
               \<longrightarrow> \<not> healthy consumer_markers (snd (net t GET (c @ ''/health'')))"
    proof (intro allI impI)
      fix t c
      assume t: "Request t GET (c @ ''/health'') \<in> set js"
      show "\<not> healthy consumer_markers (snd (net t GET (c @ ''/health'')))"
      proof
        assume "healthy consumer_markers (snd (net t GET (c @ ''/health'')))"
        with t accept have "?r = Some c" by blast
        with r show False by simp
      qed
    qed
  next
    assume all: "\<forall>t c. Request t GET (c @ ''/health'') \<in> set js
               \<longrightarrow> \<not> healthy consumer_markers (snd (net t GET (c @ ''/health'')))"
    have no_some: "?r \<noteq> Some c" for c
      using accept all by blast
    show "?r = None"
    proof (cases ?r)
      case None
      then show ?thesis .
    next
      case (Some c)
      with no_some [of c] show ?thesis by simp
    qed
  qed
  note s = since_append [OF js]
  from only first [unfolded same] accept order again [unfolded same] nxt [unfolded same] none
  show ?thesis
    unfolding s by (intro conjI)
qed

text \<open>
  The start of a worker and the probe: the failure \<open>API not healthy\<close> is handed back
  exactly when the probe ends with no address, and so whenever neither address ever
  gives a healthy reply (nor, for a producer, raises anything but a
  \<open>RequestException\<close>).
\<close>

lemma start_not_healthy:
  "(map_of (containers_ips pm) n = Some ip \<and> ip \<noteq> []
      \<longrightarrow> (fst (start_producer pm net n vc w) = Failed n NotHealthy
             \<longleftrightarrow> fst (first_healthy net
                        [''http://'' @ n @ '':5000'', ''http://'' @ ip @ '':5000''] w) = Inr None)
          \<and> (\<forall>x. fst (first_healthy net
                        [''http://'' @ n @ '':5000'', ''http://'' @ ip @ '':5000''] w) = Inl x
                 \<longrightarrow> fst (start_producer pm net n vc w) = Failed n (Raised x)))
    \<and> (map_of (containers_ips pm) n = Some ip \<and> ip \<noteq> []
        \<and> (\<forall>t c. c = ''http://'' @ n @ '':5000'' \<or> c = ''http://'' @ ip @ '':5000''
               \<longrightarrow> \<not> healthy producer_markers (snd (net t GET (c @ ''/health'')))
                 \<and> (\<forall>x. snd (net t GET (c @ ''/health'')) = Raises x \<longrightarrow> request_exception x))
      \<longrightarrow> fst (start_producer pm net n vc w) = Failed n NotHealthy)
    \<and> (map_of (consumer_configs cm) (first_field n) = Some cc \<and> ip_address box = Some ip
      \<longrightarrow> (fst (start_consumer cm net n box w) = Failed n NotHealthy
             \<longleftrightarrow> fst (consumer_api_url net (''http://'' @ n @ '':5000'')
                        (''http://'' @ ip @ '':5000'') w) = None))
    \<and> (map_of (consumer_configs cm) (first_field n) = Some cc \<and> ip_address box = Some ip
        \<and> (\<forall>t c. c = ''http://'' @ n @ '':5000'' \<or> c = ''http://'' @ ip @ '':5000''
               \<longrightarrow> \<not> healthy consumer_markers (snd (net t GET (c @ ''/health''))))
      \<longrightarrow> fst (start_consumer cm net n box w) = Failed n NotHealthy)"
proof -
  let ?h = "''http://'' @ n @ '':5000''" and ?i = "''http://'' @ ip @ '':5000''"
  have producer: "(fst (start_producer pm net n vc w) = Failed n NotHealthy
          \<longleftrightarrow> fst (first_healthy net [?h, ?i] w) = Inr None)
       \<and> (\<forall>x. fst (first_healthy net [?h, ?i] w) = Inl x
              \<longrightarrow> fst (start_producer pm net n vc w) = Failed n (Raised x))"
    if "map_of (containers_ips pm) n = Some ip \<and> ip \<noteq> []"
    using start_producer_api_not_healthy [where pm = pm and n = n and ip = ip and net = net and vc = vc
        and w = w] that by blast
  have consumer: "fst (start_consumer cm net n box w) = Failed n NotHealthy
          \<longleftrightarrow> fst (consumer_api_url net ?h ?i w) = None"
    if "map_of (consumer_configs cm) (first_field n) = Some cc \<and> ip_address box = Some ip"
    using start_consumer_api_not_healthy [where cm = cm and n = n and cc = cc and box = box and ip = ip
        and net = net and w = w] that by blast
  have producer_down: "fst (start_producer pm net n vc w) = Failed n NotHealthy"
    if known: "map_of (containers_ips pm) n = Some ip" "ip \<noteq> []"
      and down: "\<forall>t c. c = ?h \<or> c = ?i
            \<longrightarrow> \<not> healthy producer_markers (snd (net t GET (c @ ''/health'')))
              \<and> (\<forall>x. snd (net t GET (c @ ''/health'')) = Raises x \<longrightarrow> request_exception x)"
  proof -
    note walk = producer_probe [where net = net and cs = "[?h, ?i]" and w = w]
    note only = walk [THEN conjunct1]
    note none = walk [THEN conjunct2, THEN conjunct2, THEN conjunct2, THEN conjunct2,
        THEN conjunct2, THEN conjunct2, THEN conjunct1]
    have "\<not> healthy producer_markers (snd (net t GET (c @ ''/health'')))
            \<and> (\<forall>x. snd (net t GET (c @ ''/health'')) = Raises x \<longrightarrow> request_exception x)"
      if "Request t GET (c @ ''/health'') \<in> set (since w (snd (first_healthy net [?h, ?i] w)))"
      for t c
    proof -
      from only that obtain c' where "c' \<in> set [?h, ?i]" and "c @ ''/health'' = c' @ ''/health''"
        by blast
      then have "c = ?h \<or> c = ?i" by auto
      with down show ?thesis by blast
    qed
    with none have "fst (first_healthy net [?h, ?i] w) = Inr None"
      by blast
    with producer known show ?thesis
      by blast
  qed
  have consumer_down: "fst (start_consumer cm net n box w) = Failed n NotHealthy"
    if known: "map_of (consumer_configs cm) (first_field n) = Some cc" "ip_address box = Some ip"
      and down: "\<forall>t c. c = ?h \<or> c = ?i
            \<longrightarrow> \<not> healthy consumer_markers (snd (net t GET (c @ ''/health'')))"
  proof -
    note walk = consumer_probe [where net = net and h = ?h and i = ?i and w = w]
    note only = walk [THEN conjunct1]
    note none = walk [THEN conjunct2, THEN conjunct2, THEN conjunct2, THEN conjunct2,
        THEN conjunct2, THEN conjunct2]
    have "\<not> healthy consumer_markers (snd (net t GET (c @ ''/health'')))"
      if "Request t GET (c @ ''/health'') \<in> set (since w (snd (consumer_api_url net ?h ?i w)))"
      for t c
    proof -
      from only that have "c @ ''/health'' = ?h @ ''/health'' \<or> c @ ''/health'' = ?i @ ''/health''"
        by blast
      then have "c = ?h \<or> c = ?i" by auto
      with down show ?thesis by blast
    qed
    with none have "fst (consumer_api_url net ?h ?i w) = None"
      by blast
    with consumer known show ?thesis
      by blast
  qed
  have a: "map_of (containers_ips pm) n = Some ip \<and> ip \<noteq> []
        \<longrightarrow> (fst (start_producer pm net n vc w) = Failed n NotHealthy
               \<longleftrightarrow> fst (first_healthy net
                          [''http://'' @ n @ '':5000'', ''http://'' @ ip @ '':5000''] w) = Inr None)
            \<and> (\<forall>x. fst (first_healthy net
                          [''http://'' @ n @ '':5000'', ''http://'' @ ip @ '':5000''] w) = Inl x
                   \<longrightarrow> fst (start_producer pm net n vc w) = Failed n (Raised x))"
    by (rule impI) (rule producer)
  have b: "map_of (containers_ips pm) n = Some ip \<and> ip \<noteq> []
          \<and> (\<forall>t c. c = ''http://'' @ n @ '':5000'' \<or> c = ''http://'' @ ip @ '':5000''
                 \<longrightarrow> \<not> healthy producer_markers (snd (net t GET (c @ ''/health'')))
                   \<and> (\<forall>x. snd (net t GET (c @ ''/health'')) = Raises x \<longrightarrow> request_exception x))
        \<longrightarrow> fst (start_producer pm net n vc w) = Failed n NotHealthy"
    by (rule impI, elim conjE, rule producer_down)
  have c: "map_of (consumer_configs cm) (first_field n) = Some cc \<and> ip_address box = Some ip
        \<longrightarrow> (fst (start_consumer cm net n box w) = Failed n NotHealthy
               \<longleftrightarrow> fst (consumer_api_url net (''http://'' @ n @ '':5000'')
                          (''http://'' @ ip @ '':5000'') w) = None)"
    by (rule impI) (rule consumer)
  have d: "map_of (consumer_configs cm) (first_field n) = Some cc \<and> ip_address box = Some ip
          \<and> (\<forall>t c. c = ''http://'' @ n @ '':5000'' \<or> c = ''http://'' @ ip @ '':5000''
                 \<longrightarrow> \<not> healthy consumer_markers (snd (net t GET (c @ ''/health''))))
        \<longrightarrow> fst (start_consumer cm net n box w) = Failed n NotHealthy"
    by (rule impI, elim conjE, rule consumer_down)
  from a b c d show ?thesis
    by (intro conjI)
qed

text \<open>
  C4, amended. The producer walks its candidates \<open>cs\<close> with twenty seconds for each,
  the consumer tries the name-based address \<open>h\<close> and then the direct address \<open>i\<close> with
  sixty seconds for each, after a pause of two seconds before each. A reply is swallowed
  when it is not healthy (not a response that is \<open>ok\<close> with a dictionary holding a
  marker key) and, for the producer, is not an exception other than a
  \<open>RequestException\<close>. In what either adds to the journal:
  \<^item> every request is a GET of a candidate's health endpoint, and the first candidate
    is polled at once (by the consumer after its pause);
  \<^item> a candidate is accepted and returned if and only if a poll of its health endpoint
    got a healthy reply;
  \<^item> when the candidates differ from each other, every poll of a candidate is issued
    before its deadline, that is less than twenty (sixty) seconds after the first poll
    of it, while the reply itself may come in later; and if a later candidate is polled
    at all, then the first poll of every earlier candidate lies twenty (sixty) seconds
    or more before that poll, and no poll of the earlier candidate had a healthy reply;
  \<^item> when the candidates differ from each other, a candidate whose reply was swallowed
    is polled again two seconds after that reply is in, whenever that moment is less than
    twenty (sixty) seconds after the first poll of it;
  \<^item> a candidate is polled whenever every poll of the candidates before it was
    swallowed;
  \<^item> the probe gives no address if and only if every poll was swallowed; the
    producer's probe ends with an exception if and only if a poll raised one that is
    not a \<open>RequestException\<close>, and the consumer's probe never does;
  \<^item> one poll of the producer probe counts the worker as not yet ready exactly when
    the reply is swallowed; one poll of the consumer probe never raises, and says yes
    exactly for a healthy reply;
  \<^item> the start of a worker with a known address hands back the failure
    \<open>API not healthy\<close> if and only if the probe gives no address, and so whenever
    neither of its two addresses ever has a reply that is not swallowed; when the
    producer's probe ends with an exception, the start hands back the failure with that
    exception.
\<close>

theorem health_probe:
  "((\<forall>t m v. Request t m v \<in> set (since w (snd (first_healthy net cs w)))
          \<longrightarrow> m = GET \<and> clock w \<le> t \<and> (\<exists>c. c \<in> set cs \<and> v = c @ ''/health''))
     \<and> (cs \<noteq> [] \<longrightarrow> Request (clock w) GET (hd cs @ ''/health'')
             \<in> set (since w (snd (first_healthy net cs w))))
     \<and> (\<forall>c. fst (first_healthy net cs w) = Inr (Some c)
             \<longleftrightarrow> (\<exists>t. Request t GET (c @ ''/health'') \<in> set (since w (snd (first_healthy net cs w)))
                      \<and> healthy producer_markers (snd (net t GET (c @ ''/health'')))))
     \<and> (distinct cs \<longrightarrow>
             (\<forall>c t t0. Request t GET (c @ ''/health'')
                     \<in> set (since w (snd (first_healthy net cs w)))
                   \<and> Request t0 GET (c @ ''/health'')
                           \<in> set (since w (snd (first_healthy net cs w)))
                 \<longrightarrow> t < t0 + 20)
           \<and> (\<forall>pre c post c' t'. cs = pre @ c # post \<and> c' \<in> set post
                   \<and> Request t' GET (c' @ ''/health'')
                           \<in> set (since w (snd (first_healthy net cs w)))
                 \<longrightarrow> (\<exists>t0. Request t0 GET (c @ ''/health'')
                         \<in> set (since w (snd (first_healthy net cs w))) \<and> t0 + 20 \<le> t')
                   \<and> (\<forall>t. Request t GET (c @ ''/health'')
                           \<in> set (since w (snd (first_healthy net cs w)))
                         \<longrightarrow> \<not> healthy producer_markers (snd (net t GET (c @ ''/health''))))))
     \<and> (distinct cs \<longrightarrow>
             (\<forall>c t. Request t GET (c @ ''/health'') \<in> set (since w (snd (first_healthy net cs w)))
                   \<and> \<not> healthy producer_markers (snd (net t GET (c @ ''/health'')))
                   \<and> (\<forall>x. snd (net t GET (c @ ''/health'')) = Raises x \<longrightarrow> request_exception x)
                   \<and> (\<forall>t0. Request t0 GET (c @ ''/health'')
                           \<in> set (since w (snd (first_healthy net cs w)))
                         \<longrightarrow> arrival net t GET (c @ ''/health'') + 2 < t0 + 20)
                 \<longrightarrow> Request (arrival net t GET (c @ ''/health'') + 2) GET (c @ ''/health'')
                       \<in> set (since w (snd (first_healthy net cs w)))))
     \<and> (\<forall>pre c post. cs = pre @ c # post
               \<and> (\<forall>c' t. c' \<in> set pre \<and> Request t GET (c' @ ''/health'')
                       \<in> set (since w (snd (first_healthy net cs w)))
                     \<longrightarrow> \<not> healthy producer_markers (snd (net t GET (c' @ ''/health'')))
                       \<and> (\<forall>x. snd (net t GET (c' @ ''/health'')) = Raises x
                              \<longrightarrow> request_exception x))
             \<longrightarrow> (\<exists>t. Request t GET (c @ ''/health'')
                     \<in> set (since w (snd (first_healthy net cs w)))))
     \<and> (fst (first_healthy net cs w) = Inr None
             \<longleftrightarrow> (\<forall>t c. Request t GET (c @ ''/health'')
                     \<in> set (since w (snd (first_healthy net cs w)))
                      \<longrightarrow> \<not> healthy producer_markers (snd (net t GET (c @ ''/health'')))
                        \<and> (\<forall>x. snd (net t GET (c @ ''/health'')) = Raises x
                               \<longrightarrow> request_exception x)))
     \<and> (\<forall>x. fst (first_healthy net cs w) = Inl x
             \<longleftrightarrow> (\<exists>t c. Request t GET (c @ ''/health'')
                     \<in> set (since w (snd (first_healthy net cs w)))
                      \<and> snd (net t GET (c @ ''/health'')) = Raises x
                      \<and> \<not> request_exception x)))
   \<and> ((\<forall>t m v. Request t m v \<in> set (since w (snd (consumer_api_url net h i w)))
             \<longrightarrow> m = GET \<and> clock w \<le> t \<and> (v = h @ ''/health'' \<or> v = i @ ''/health''))
        \<and> Request (clock w + 2) GET (h @ ''/health'')
                \<in> set (since w (snd (consumer_api_url net h i w)))
        \<and> (\<forall>c. fst (consumer_api_url net h i w) = Some c
                \<longleftrightarrow> (\<exists>t. Request t GET (c @ ''/health'')
                        \<in> set (since w (snd (consumer_api_url net h i w)))
                         \<and> healthy consumer_markers (snd (net t GET (c @ ''/health'')))))
        \<and> (h \<noteq> i \<longrightarrow>
                (\<forall>c t t0. Request t GET (c @ ''/health'')
                        \<in> set (since w (snd (consumer_api_url net h i w)))
                      \<and> Request t0 GET (c @ ''/health'')
                              \<in> set (since w (snd (consumer_api_url net h i w)))
                    \<longrightarrow> t < t0 + 60)
              \<and> (\<forall>t'. Request t' GET (i @ ''/health'')
                      \<in> set (since w (snd (consumer_api_url net h i w)))
                    \<longrightarrow> (\<exists>t0. Request t0 GET (h @ ''/health'')
                            \<in> set (since w (snd (consumer_api_url net h i w))) \<and> t0 + 60 \<le> t')
                      \<and> (\<forall>t. Request t GET (h @ ''/health'')
                              \<in> set (since w (snd (consumer_api_url net h i w)))
                            \<longrightarrow> \<not> healthy consumer_markers (snd (net t GET (h @ ''/health''))))))
        \<and> (h \<noteq> i \<longrightarrow>
                (\<forall>c t. Request t GET (c @ ''/health'')
                        \<in> set (since w (snd (consumer_api_url net h i w)))
                      \<and> \<not> healthy consumer_markers (snd (net t GET (c @ ''/health'')))
                      \<and> (\<forall>t0. Request t0 GET (c @ ''/health'')
                              \<in> set (since w (snd (consumer_api_url net h i w)))
                            \<longrightarrow> arrival net t GET (c @ ''/health'') + 2 < t0 + 60)
                    \<longrightarrow> Request (arrival net t GET (c @ ''/health'') + 2) GET (c @ ''/health'')
                          \<in> set (since w (snd (consumer_api_url net h i w)))))
        \<and> ((\<forall>t. Request t GET (h @ ''/health'') \<in> set (since w (snd (consumer_api_url net h i w)))
                  \<longrightarrow> \<not> healthy consumer_markers (snd (net t GET (h @ ''/health''))))
                \<longrightarrow> (\<exists>t. Request t GET (i @ ''/health'')
                        \<in> set (since w (snd (consumer_api_url net h i w)))))
        \<and> (fst (consumer_api_url net h i w) = None
                \<longleftrightarrow> (\<forall>t c. Request t GET (c @ ''/health'')
                        \<in> set (since w (snd (consumer_api_url net h i w)))
                         \<longrightarrow> \<not> healthy consumer_markers (snd (net t GET (c @ ''/health''))))))
   \<and> ((fst (producer_health_poll net u w) = Inr False
         \<longleftrightarrow> \<not> healthy producer_markers (snd (net (clock w) GET (u @ ''/health'')))
             \<and> (\<forall>x. snd (net (clock w) GET (u @ ''/health'')) = Raises x \<longrightarrow> request_exception x))
       \<and> (fst (consumer_health_poll net u w)
         \<longleftrightarrow> healthy consumer_markers (snd (net (clock w) GET (u @ ''/health'')))))
   \<and> ((map_of (containers_ips pm) n = Some ip \<and> ip \<noteq> []
         \<longrightarrow> (fst (start_producer pm net n vc w) = Failed n NotHealthy
                \<longleftrightarrow> fst (first_healthy net
                           [''http://'' @ n @ '':5000'', ''http://'' @ ip @ '':5000''] w) = Inr None)
             \<and> (\<forall>x. fst (first_healthy net
                           [''http://'' @ n @ '':5000'', ''http://'' @ ip @ '':5000''] w) = Inl x
                    \<longrightarrow> fst (start_producer pm net n vc w) = Failed n (Raised x)))
       \<and> (map_of (containers_ips pm) n = Some ip \<and> ip \<noteq> []
           \<and> (\<forall>t c. c = ''http://'' @ n @ '':5000'' \<or> c = ''http://'' @ ip @ '':5000''
                  \<longrightarrow> \<not> healthy producer_markers (snd (net t GET (c @ ''/health'')))
                    \<and> (\<forall>x. snd (net t GET (c @ ''/health'')) = Raises x \<longrightarrow> request_exception x))
         \<longrightarrow> fst (start_producer pm net n vc w) = Failed n NotHealthy)
       \<and> (map_of (consumer_configs cm) (first_field n) = Some cc \<and> ip_address box = Some ip
         \<longrightarrow> (fst (start_consumer cm net n box w) = Failed n NotHealthy
                \<longleftrightarrow> fst (consumer_api_url net (''http://'' @ n @ '':5000'')
                           (''http://'' @ ip @ '':5000'') w) = None))
       \<and> (map_of (consumer_configs cm) (first_field n) = Some cc \<and> ip_address box = Some ip
           \<and> (\<forall>t c. c = ''http://'' @ n @ '':5000'' \<or> c = ''http://'' @ ip @ '':5000''
                  \<longrightarrow> \<not> healthy consumer_markers (snd (net t GET (c @ ''/health''))))
         \<longrightarrow> fst (start_consumer cm net n box w) = Failed n NotHealthy))"
proof -
  note polls = producer_health_poll_swallows [of net u w]
    conjunct2 [OF conjunct2 [OF consumer_health_poll_trace [of net u w]]]
  have one_poll: "(fst (producer_health_poll net u w) = Inr False
        \<longleftrightarrow> \<not> healthy producer_markers (snd (net (clock w) GET (u @ ''/health'')))
            \<and> (\<forall>x. snd (net (clock w) GET (u @ ''/health'')) = Raises x \<longrightarrow> request_exception x))
      \<and> (fst (consumer_health_poll net u w)
        \<longleftrightarrow> healthy consumer_markers (snd (net (clock w) GET (u @ ''/health''))))"
    using polls by (intro conjI)
  show ?thesis
    by (rule conjI [OF producer_probe conjI [OF consumer_probe
          conjI [OF one_poll start_not_healthy]]])
qed

theorem health_probe_witness:
  "distinct [''http://v1_producer:5000'', ''http://172.18.0.5:5000'']
   \<and> fst (first_healthy host_down [''http://v1_producer:5000'', ''http://172.18.0.5:5000'']
           start_of_time) = Inr (Some ''http://172.18.0.5:5000'')
   \<and> (\<exists>t. Request t GET ''http://172.18.0.5:5000/health''
              \<in> set (since start_of_time
                    (snd (first_healthy host_down
                            [''http://v1_producer:5000'', ''http://172.18.0.5:5000'']
                            start_of_time)))
          \<and> healthy producer_markers (snd (host_down t GET ''http://172.18.0.5:5000/health'')))
   \<and> Request 0 GET ''http://v1_producer:5000/health''
        \<in> set (since start_of_time
              (snd (first_healthy host_down
                      [''http://v1_producer:5000'', ''http://172.18.0.5:5000'']
                      start_of_time)))
   \<and> Request 12 GET ''http://v1_producer:5000/health''
        \<in> set (since start_of_time
              (snd (first_healthy host_down
                      [''http://v1_producer:5000'', ''http://172.18.0.5:5000'']
                      start_of_time)))
   \<and> (\<exists>t0. Request t0 GET ''http://v1_producer:5000/health''
              \<in> set (since start_of_time
                    (snd (first_healthy host_down
                            [''http://v1_producer:5000'', ''http://172.18.0.5:5000'']
                            start_of_time)))
          \<and> t0 + 20 \<le> 24)
   \<and> Request 2 GET ''http://v9_consumer:5000/health''
        \<in> set (since start_of_time
              (snd (consumer_api_url host_down ''http://v9_consumer:5000''
                      ''http://172.18.0.9:5000'' start_of_time)))
   \<and> Request 14 GET ''http://v9_consumer:5000/health''
        \<in> set (since start_of_time
              (snd (consumer_api_url host_down ''http://v9_consumer:5000''
                      ''http://172.18.0.9:5000'' start_of_time)))
   \<and> (\<exists>t. Request t GET ''http://172.18.0.9:5000/health''
              \<in> set (since start_of_time
                    (snd (consumer_api_url host_down ''http://v9_consumer:5000''
                            ''http://172.18.0.9:5000'' start_of_time))))
   \<and> fst (consumer_api_url host_down ''http://v9_consumer:5000'' ''http://172.18.0.9:5000''
           start_of_time) = None
   \<and> fst (start_producer
           \<lparr>pm_cfg = demo_cfg, producers = [(''v9_producer'', \<lparr>ip_address = Some ''172.18.0.9''\<rparr>)],
            containers_ips = [(''v9_producer'', ''172.18.0.9'')],
            vehicle_configs = [(''v9'', [])], vehicle_names = [''v9'']\<rparr>
           host_down ''v9_producer'' [] start_of_time)
       = Failed ''v9_producer'' NotHealthy
   \<and> fst (start_consumer
           \<lparr>cm_cfg = demo_cfg, consumers = [(''v9_consumer'', \<lparr>ip_address = Some ''172.18.0.9''\<rparr>)],
            cm_logging_level = ''INFO'', consumer_configs = [(''v9'', [])]\<rparr>
           host_down ''v9_consumer'' \<lparr>ip_address = Some ''172.18.0.9''\<rparr> start_of_time)
       = Failed ''v9_consumer'' NotHealthy"
proof -
  let ?h = "''http://v1_producer:5000''" and ?i = "''http://172.18.0.5:5000''"
  let ?hc = "''http://v9_consumer:5000''" and ?ic = "''http://172.18.0.9:5000''"
  let ?J = "since start_of_time (snd (first_healthy host_down [?h, ?i] start_of_time))"
  let ?K = "since start_of_time (snd (consumer_api_url host_down ?hc ?ic start_of_time))"
  let ?pm = "\<lparr>pm_cfg = demo_cfg,
              producers = [(''v9_producer'', \<lparr>ip_address = Some ''172.18.0.9''\<rparr>)],
              containers_ips = [(''v9_producer'', ''172.18.0.9'')],
              vehicle_configs = [(''v9'', [])], vehicle_names = [''v9'']\<rparr>"
  let ?cm = "\<lparr>cm_cfg = demo_cfg,
              consumers = [(''v9_consumer'', \<lparr>ip_address = Some ''172.18.0.9''\<rparr>)],
              cm_logging_level = ''INFO'', consumer_configs = [(''v9'', [])]\<rparr>"
  note eval = producer_wait_for_health_def producer_health_loop.simps producer_health_poll_def
    request_def report_def sleep_def host_down_def start_of_time_def ok_def
    raises_for_status_def has_marker_def producer_markers_def
    request_exception_def since_def Let_def
  have walk: "fst (first_healthy host_down [?h, ?i] start_of_time) = Inr (Some ?i)"
    by (simp add: eval)
  have at0: "Request 0 GET (?h @ ''/health'') \<in> set ?J"
    by (simp add: eval)
  have at24: "Request 24 GET (?i @ ''/health'') \<in> set ?J"
    by (simp add: eval)
  have split: "[?h, ?i] = [] @ ?h # [?i]" and later: "?i \<in> set [?i]" and diff: "distinct [?h, ?i]"
    by simp_all
  note producer = health_probe [where net = host_down and cs = "[?h, ?i]" and w = start_of_time,
      THEN conjunct1]
  note accepted = producer [THEN conjunct2, THEN conjunct2, THEN conjunct1, THEN spec, of ?i]
  note order = producer [THEN conjunct2, THEN conjunct2, THEN conjunct2, THEN conjunct1,
      THEN mp, OF diff, THEN conjunct2,
      THEN spec, THEN spec, THEN spec, THEN spec, THEN spec, of "[]" ?h "[?i]" ?i 24]
  note again = producer [THEN conjunct2, THEN conjunct2, THEN conjunct2, THEN conjunct2,
      THEN conjunct1, THEN mp, OF diff, THEN spec, THEN spec, of 0 ?h]
  from accepted walk
  have a: "\<exists>t. Request t GET (?i @ ''/health'') \<in> set ?J
          \<and> healthy producer_markers (snd (host_down t GET (?i @ ''/health'')))"
    by simp
  from order split later at24
  have b: "\<exists>t0. Request t0 GET (?h @ ''/health'') \<in> set ?J \<and> t0 + 20 \<le> 24"
    by simp
  have unanswered: "\<not> healthy producer_markers (snd (host_down 0 GET (?h @ ''/health'')))
      \<and> (\<forall>x. snd (host_down 0 GET (?h @ ''/health'')) = Raises x \<longrightarrow> request_exception x)
      \<and> (\<forall>t0. Request t0 GET (?h @ ''/health'') \<in> set ?J
            \<longrightarrow> arrival host_down 0 GET (?h @ ''/health'') + 2 < t0 + 20)"
    by (simp add: host_down_def healthy_def request_exception_def arrival_def)
  from again [THEN mp, OF conjI [OF at0 unanswered]]
  have c: "Request 12 GET (?h @ ''/health'') \<in> set ?J"
    by (simp add: arrival_def host_down_def)
  have diff_c: "?hc \<noteq> ?ic"
    by simp
  note consumer = health_probe [where net = host_down and h = ?hc and i = ?ic and w = start_of_time,
      THEN conjunct2, THEN conjunct1]
  note only_c = consumer [THEN conjunct1]
  note first_c = consumer [THEN conjunct2, THEN conjunct1]
  note again_c = consumer [THEN conjunct2, THEN conjunct2, THEN conjunct2, THEN conjunct2,
      THEN conjunct1, THEN mp, OF diff_c, THEN spec, THEN spec, of 2 ?hc]
  note next_c = consumer [THEN conjunct2, THEN conjunct2, THEN conjunct2, THEN conjunct2,
      THEN conjunct2, THEN conjunct1]
  note none_c = consumer [THEN conjunct2, THEN conjunct2, THEN conjunct2, THEN conjunct2,
      THEN conjunct2, THEN conjunct2]
  have two: "clock start_of_time + 2 = 2"
    by (simp add: start_of_time_def)
  from first_c have d: "Request 2 GET (?hc @ ''/health'') \<in> set ?K"
    unfolding two .
  have unanswered_c: "\<not> healthy consumer_markers (snd (host_down 2 GET (?hc @ ''/health'')))
      \<and> (\<forall>t0. Request t0 GET (?hc @ ''/health'') \<in> set ?K
            \<longrightarrow> arrival host_down 2 GET (?hc @ ''/health'') + 2 < t0 + 60)"
    by (simp add: host_down_def healthy_def arrival_def)
  from again_c [THEN mp, OF conjI [OF d unanswered_c]]
  have e: "Request 14 GET (?hc @ ''/health'') \<in> set ?K"
    by (simp add: arrival_def host_down_def)
  have name_down: "\<forall>t. Request t GET (?hc @ ''/health'') \<in> set ?K
        \<longrightarrow> \<not> healthy consumer_markers (snd (host_down t GET (?hc @ ''/health'')))"
    by (simp add: host_down_def healthy_def)
  from next_c [THEN mp, OF name_down]
  have f: "\<exists>t. Request t GET (?ic @ ''/health'') \<in> set ?K" .
  have all_down: "\<forall>t c. Request t GET (c @ ''/health'') \<in> set ?K
        \<longrightarrow> \<not> healthy consumer_markers (snd (host_down t GET (c @ ''/health'')))"
  proof (intro allI impI)
    fix t c
    assume "Request t GET (c @ ''/health'') \<in> set ?K"
    with only_c have "c @ ''/health'' = ?hc @ ''/health'' \<or> c @ ''/health'' = ?ic @ ''/health''"
      by blast
    then show "\<not> healthy consumer_markers (snd (host_down t GET (c @ ''/health'')))"
      by (auto simp: host_down_def healthy_def)
  qed
  with none_c have g: "fst (consumer_api_url host_down ?hc ?ic start_of_time) = None"
    by (rule iffD2)
  have ips: "map_of (containers_ips ?pm) ''v9_producer'' = Some ''172.18.0.9''
               \<and> ''172.18.0.9'' \<noteq> []
               \<and> (\<forall>t c. c = ''http://'' @ ''v9_producer'' @ '':5000''
                         \<or> c = ''http://'' @ ''172.18.0.9'' @ '':5000''
                    \<longrightarrow> \<not> healthy producer_markers (snd (host_down t GET (c @ ''/health'')))
                      \<and> (\<forall>x. snd (host_down t GET (c @ ''/health'')) = Raises x
                             \<longrightarrow> request_exception x))"
    by (auto simp: host_down_def healthy_def request_exception_def)
  have cfgs: "map_of (consumer_configs ?cm) (first_field ''v9_consumer'') = Some []
                \<and> ip_address \<lparr>ip_address = Some ''172.18.0.9''\<rparr> = Some ''172.18.0.9''
                \<and> (\<forall>t c. c = ''http://'' @ ''v9_consumer'' @ '':5000''
                          \<or> c = ''http://'' @ ''172.18.0.9'' @ '':5000''
                     \<longrightarrow> \<not> healthy consumer_markers (snd (host_down t GET (c @ ''/health''))))"
    by (auto simp: first_field_def host_down_def healthy_def)
  note start_p = health_probe [where net = host_down and w = start_of_time and pm = ?pm
      and n = "''v9_producer''" and ip = "''172.18.0.9''" and vc = "[]",
      THEN conjunct2, THEN conjunct2, THEN conjunct2]
  note start_c = health_probe [where net = host_down and w = start_of_time and cm = ?cm
      and n = "''v9_consumer''" and ip = "''172.18.0.9''" and cc = "[]"
      and box = "\<lparr>ip_address = Some ''172.18.0.9''\<rparr>",
      THEN conjunct2, THEN conjunct2, THEN conjunct2]
  from start_p [THEN conjunct2, THEN conjunct1, THEN mp, OF ips]
  have p: "fst (start_producer ?pm host_down ''v9_producer'' [] start_of_time)
             = Failed ''v9_producer'' NotHealthy" .
  from start_c [THEN conjunct2, THEN conjunct2, THEN conjunct2, THEN mp, OF cfgs]
  have q: "fst (start_consumer ?cm host_down ''v9_consumer'' \<lparr>ip_address = Some ''172.18.0.9''\<rparr>
                  start_of_time) = Failed ''v9_consumer'' NotHealthy" .
  from diff walk a at0 c b d e f g p q show ?thesis
    by simp
qed

subsection \<open>C5: configure before start\<close>

lemma posts_append: "posts (xs @ ys) = posts xs @ posts ys"
  by (simp add: posts_def)

lemma posts_simps:
  "posts [] = []"
  "posts (Request t m u # js) = (if m = POST then [(t, u)] else []) @ posts js"
  "posts (Wait k # js) = posts js"
  "posts (Report l msg # js) = posts js"
  by (simp_all add: posts_def)

lemma posts_GET_only:
  "(\<And>t m v. Request t m v \<in> set js \<Longrightarrow> m = GET) \<Longrightarrow> posts js = []"
proof (induction js)
  case Nil
  show ?case by (simp add: posts_simps)
next
  case (Cons a js)
  have "posts js = []"
  proof (rule Cons.IH)
    fix t m v
    assume "Request t m v \<in> set js"
    then show "m = GET" using Cons.prems [of t m v] by simp
  qed
  moreover have "m = GET" if "a = Request t m v" for t m v
    using Cons.prems [of t m v] that by simp
  ultimately show ?case
    by (cases a) (simp_all add: posts_simps)
qed

lemma consumer_api_url_journal:
  "\<exists>js. journal (snd (consumer_api_url net h i w)) = journal w @ js \<and> posts js = []"
proof -
  from consumer_api_url_trace [of net h i w] obtain js
    where "journal (snd (consumer_api_url net h i w)) = journal w @ js"
      and "\<forall>t m v. Request t m v \<in> set js
              \<longrightarrow> m = GET \<and> clock w \<le> t \<and> (v = h @ ''/health'' \<or> v = i @ ''/health'')"
    by blast
  then show ?thesis
    using posts_GET_only [of js] by blast
qed

lemma first_healthy_journal:
  "\<exists>js. journal (snd (first_healthy net cs w)) = journal w @ js \<and> posts js = []"
proof -
  from first_healthy_trace [of net cs w] obtain js
    where "journal (snd (first_healthy net cs w)) = journal w @ js"
      and "\<forall>t m v. Request t m v \<in> set js
              \<longrightarrow> m = GET \<and> clock w \<le> t \<and> (\<exists>c. c \<in> set cs \<and> v = c @ ''/health'')"
    by blast
  then show ?thesis
    using posts_GET_only [of js] by blast
qed

lemma configure_then_start_journal:
  "\<exists>js. journal (snd (configure_then_start net u w)) = journal w @ js
        \<and> posts js
            = (clock w, u @ ''/configure'')
              # (if checked (snd (net (clock w) POST (u @ ''/configure''))) = None
                 then [(arrival net (clock w) POST (u @ ''/configure''), u @ ''/start'')]
                 else [])"
  by (simp add: configure_then_start_def request_def arrival_def posts_simps
      split: option.splits prod.splits)

lemma fst_configure_then_start:
  "fst (configure_then_start net u w)
     = (case checked (snd (net (clock w) POST (u @ ''/configure''))) of
          Some x \<Rightarrow> Some x
        | None \<Rightarrow>
            checked (snd (net (arrival net (clock w) POST (u @ ''/configure'')) POST
                            (u @ ''/start''))))"
  by (simp add: configure_then_start_def request_def arrival_def split: option.splits)

lemma configure_is_not_start: "a @ ''/configure'' \<noteq> b @ ''/start''"
proof
  assume "a @ ''/configure'' = b @ ''/start''"
  then have "last (a @ ''/configure'') = last (b @ ''/start'')" by simp
  then show False by simp
qed

lemma post_policy_none: "result \<noteq> Started n \<Longrightarrow> post_policy net [] result n"
  by (simp add: post_policy_def)

lemma post_policy_posts:
  assumes js: "journal (snd (configure_then_start net api w1)) = journal w1 @ js"
    and failed: "\<And>x. fst (configure_then_start net api w1) = Some x
                   \<Longrightarrow> result = Failed n (Raised x)"
    and started: "result = Started n \<Longrightarrow> fst (configure_then_start net api w1) = None"
  shows "post_policy net (posts js) result n"
proof -
  let ?c = "checked (snd (net (clock w1) POST (api @ ''/configure'')))"
  let ?t1 = "arrival net (clock w1) POST (api @ ''/configure'')"
  let ?s = "checked (snd (net ?t1 POST (api @ ''/start'')))"
  from configure_then_start_journal [of net api w1] js
  have ps: "posts js = (clock w1, api @ ''/configure'')
                       # (if ?c = None then [(?t1, api @ ''/start'')] else [])"
    by auto
  note r = fst_configure_then_start [of net api w1]
  show ?thesis
  proof (cases ?c)
    case (Some x)
    with ps have ps': "posts js = [(clock w1, api @ ''/configure'')]" by simp
    from r Some have "fst (configure_then_start net api w1) = Some x" by simp
    from failed [OF this] have res: "result = Failed n (Raised x)" .
    show ?thesis
      unfolding post_policy_def ps' using Some res
      by (auto simp: configure_is_not_start)
  next
    case None
    with ps have ps': "posts js = [(clock w1, api @ ''/configure''), (?t1, api @ ''/start'')]"
      by simp
    from r None have r': "fst (configure_then_start net api w1) = ?s" by simp
    have fail: "result = Failed n (Raised x)" if "?s = Some x" for x
      using failed [of x] r' that by simp
    have ok: "?s = None" if "result = Started n"
      using started [OF that] r' by simp
    show ?thesis
      unfolding post_policy_def ps' using None fail ok
      by (auto simp: configure_is_not_start configure_is_not_start [symmetric])
  qed
qed

lemma since_journal: "journal w' = journal w @ js \<Longrightarrow> posts (since w w') = posts js"
  by (simp add: since_def)

lemma start_consumer_policy:
  "post_policy net (posts (since w (snd (start_consumer cm net n box w))))
     (fst (start_consumer cm net n box w)) n"
proof (cases "map_of (consumer_configs cm) (first_field n)")
  case None
  then have "start_consumer cm net n box w = consumer_start_failed n KeyError w"
    by (simp add: start_consumer_def Let_def)
  then show ?thesis
    by (simp add: consumer_start_failed_def since_def report_simps posts_simps post_policy_none)
next
  case (Some cc)
  show ?thesis
  proof (cases "ip_address box")
    case None
    with Some have "start_consumer cm net n box w = consumer_start_failed n KeyError w"
      by (simp add: start_consumer_def Let_def)
    then show ?thesis
      by (simp add: consumer_start_failed_def since_def report_simps posts_simps post_policy_none)
  next
    case ip: (Some ip)
    let ?h = "''http://'' @ n @ '':5000''" and ?i = "''http://'' @ ip @ '':5000''"
    obtain choice w1 where pick: "consumer_api_url net ?h ?i w = (choice, w1)"
      by (cases "consumer_api_url net ?h ?i w")
    from consumer_api_url_journal [of net ?h ?i w] pick obtain js0
      where j0: "journal w1 = journal w @ js0" and quiet: "posts js0 = []"
      by auto
    show ?thesis
    proof (cases choice)
      case None
      with Some ip pick have out: "start_consumer cm net n box w = (Failed n NotHealthy, w1)"
        by (simp add: start_consumer_def Let_def)
      show ?thesis
        unfolding out using since_journal [OF j0] quiet by (simp add: post_policy_none)
    next
      case api: (Some api)
      let ?ready = "case cfg_payload cm cc (first_field n) of
                      Inl x \<Rightarrow> False | Inr p \<Rightarrow> list_all (\<lambda>(k, v). serializable v) p"
      show ?thesis
      proof (cases ?ready)
        case False
        then obtain x where out: "start_consumer cm net n box w = consumer_start_failed n x w1"
          using Some ip pick api
          by (auto simp: start_consumer_def Let_def split: sum.splits)
        have "journal (snd (consumer_start_failed n x w1))
                = journal w @ js0 @ [Report ERROR ''Failed to start consumer'']"
          by (simp add: consumer_start_failed_def report_simps j0)
        from since_journal [OF this] quiet show ?thesis
          unfolding out
          by (simp add: posts_append posts_simps consumer_start_failed_def post_policy_none)
      next
        case True
        obtain r w3 where run: "configure_then_start net api w1 = (r, w3)"
          by (cases "configure_then_start net api w1")
        from configure_then_start_journal [of net api w1] run obtain cjs
          where cj: "journal w3 = journal w1 @ cjs"
          by auto
        from True Some ip pick api run
        have out: "start_consumer cm net n box w
                     = (case r of
                          Some x \<Rightarrow> consumer_start_failed n x w3
                        | None \<Rightarrow> (Started n, report INFO ''Consumer started successfully'' w3))"
          by (auto simp: start_consumer_def Let_def split: sum.splits)
        have res: "fst (start_consumer cm net n box w)
                     = (case r of Some x \<Rightarrow> Failed n (Raised x) | None \<Rightarrow> Started n)"
          unfolding out by (simp add: consumer_start_failed_def split: option.splits)
        have "\<exists>l. journal (snd (start_consumer cm net n box w)) = journal w @ js0 @ cjs @ [l]
                  \<and> posts [l] = []"
          unfolding out
          by (simp add: consumer_start_failed_def report_simps j0 cj posts_simps
              split: option.splits)
        then obtain l
          where "journal (snd (start_consumer cm net n box w)) = journal w @ (js0 @ cjs @ [l])"
            and "posts [l] = []"
          by auto
        from since_journal [OF this(1)] this(2) quiet
        have ps: "posts (since w (snd (start_consumer cm net n box w))) = posts cjs"
          by (simp add: posts_append)
        have "post_policy net (posts cjs) (fst (start_consumer cm net n box w)) n"
        proof (rule post_policy_posts [of net api w1])
          show "journal (snd (configure_then_start net api w1)) = journal w1 @ cjs"
            using run cj by simp
          show "fst (start_consumer cm net n box w) = Failed n (Raised x)"
            if "fst (configure_then_start net api w1) = Some x" for x
            using that run res by simp
          show "fst (configure_then_start net api w1) = None"
            if "fst (start_consumer cm net n box w) = Started n"
            using that run res by (cases r) simp_all
        qed
        with ps show ?thesis by simp
      qed
    qed
  qed
qed

lemma start_producer_policy:
  "post_policy net (posts (since w (snd (start_producer pm net n vc w))))
     (fst (start_producer pm net n vc w)) n"
proof (cases "case map_of (containers_ips pm) n of None \<Rightarrow> True | Some ip \<Rightarrow> ip = []")
  case True
  then have "start_producer pm net n vc w = (Failed n NoContainerIP, w)"
    by (simp add: start_producer_def split: option.splits)
  then show ?thesis
    by (simp add: since_def posts_simps post_policy_none)
next
  case False
  then obtain ip where ip: "map_of (containers_ips pm) n = Some ip" "ip \<noteq> []"
    by (auto split: option.splits)
  let ?cs = "[''http://'' @ n @ '':5000'', ''http://'' @ ip @ '':5000'']"
  obtain choice w1 where pick: "first_healthy net ?cs w = (choice, w1)"
    by (cases "first_healthy net ?cs w")
  from first_healthy_journal [of net ?cs w] pick obtain js0
    where j0: "journal w1 = journal w @ js0" and quiet: "posts js0 = []"
    by auto
  let ?data = "build_config_data pm vc (first_field n)"
  have report_fold: "\<exists>ls. journal (fold (\<lambda>_. report ERROR msg) xs v) = journal v @ ls
                          \<and> posts ls = []" for msg and xs :: "(string \<times> cfgval) list" and v
  proof (induction xs arbitrary: v)
    case Nil
    show ?case by (simp add: posts_simps)
  next
    case (Cons a xs)
    from Cons [of "report ERROR msg v"] obtain ls
      where "journal (fold (\<lambda>_. report ERROR msg) xs (report ERROR msg v))
               = journal (report ERROR msg v) @ ls" and "posts ls = []"
      by blast
    then show ?case
      by (intro exI [of _ "Report ERROR msg # ls"]) (simp add: report_simps posts_simps)
  qed
  consider (raised) x where "choice = Inl x" | (none) "choice = Inr None"
    | (unfit) api where "choice = Inr (Some api)"
        "\<not> list_all (\<lambda>(k, v). serializable v) ?data"
    | (fit) api where "choice = Inr (Some api)" "list_all (\<lambda>(k, v). serializable v) ?data"
    by (cases choice) (auto split: option.splits)
  then show ?thesis
  proof cases
    case raised
    with ip pick have out: "start_producer pm net n vc w = producer_start_failed n x w1"
      by (simp add: start_producer_def Let_def)
    have "journal (snd (producer_start_failed n x w1))
            = journal w @ js0 @ [Report ERROR ''Failed to start producer'']"
      by (simp add: producer_start_failed_def report_simps j0)
    from since_journal [OF this] quiet show ?thesis
      unfolding out
      by (simp add: posts_append posts_simps producer_start_failed_def post_policy_none)
  next
    case none
    with ip pick
    have out: "start_producer pm net n vc w
                 = (Failed n NotHealthy,
                    report ERROR ''Failed to start producer: API not healthy'' w1)"
      by (simp add: start_producer_def Let_def)
    have "journal (report ERROR ''Failed to start producer: API not healthy'' w1)
            = journal w @ js0 @ [Report ERROR ''Failed to start producer: API not healthy'']"
      by (simp add: report_simps j0)
    from since_journal [OF this] quiet show ?thesis
      unfolding out by (simp add: posts_append posts_simps post_policy_none)
  next
    case unfit
    let ?w = "fold (\<lambda>_. report ERROR ''Non-serializable key'')
                (filter (\<lambda>(k, v). \<not> serializable v) ?data)
                (report ERROR ''Config data keys''
                   (report ERROR ''JSON serialization failed'' w1))"
    from unfit ip pick
    have out: "start_producer pm net n vc w = (Failed n NotSerializable, ?w)"
      by (simp add: start_producer_def Let_def)
    from report_fold obtain ls
      where "journal ?w = journal (report ERROR ''Config data keys''
                                     (report ERROR ''JSON serialization failed'' w1)) @ ls"
        and ls: "posts ls = []"
      by blast
    then have "journal ?w = journal w @ js0 @ Report ERROR ''JSON serialization failed''
                              # Report ERROR ''Config data keys'' # ls"
      by (simp add: report_simps j0)
    from since_journal [OF this] quiet ls show ?thesis
      unfolding out by (simp add: posts_append posts_simps post_policy_none)
  next
    case fit
    obtain r w3 where run: "configure_then_start net api w1 = (r, w3)"
      by (cases "configure_then_start net api w1")
    from configure_then_start_journal [of net api w1] run obtain cjs
      where cj: "journal w3 = journal w1 @ cjs"
      by auto
    let ?status = "checked (fst (request net GET (api @ ''/status'') w3))"
    let ?w4 = "snd (request net GET (api @ ''/status'') w3)"
    from fit ip pick run
    have out: "start_producer pm net n vc w
                 = (case r of
                      Some x \<Rightarrow> producer_start_failed n x w3
                    | None \<Rightarrow>
                        (case ?status of
                           Some x \<Rightarrow> producer_start_failed n x ?w4
                         | None \<Rightarrow>
                             (Started n, report INFO ''Producer started successfully'' ?w4)))"
      by (simp add: start_producer_def Let_def split: option.splits prod.splits)
    have res: "fst (start_producer pm net n vc w) = Failed n (Raised x)" if "r = Some x" for x
      unfolding out using that by (simp add: producer_start_failed_def)
    have started: "r = None" if "fst (start_producer pm net n vc w) = Started n"
      using that unfolding out
      by (cases r) (simp_all add: producer_start_failed_def)
    have "\<exists>ls. journal (snd (start_producer pm net n vc w)) = journal w @ js0 @ cjs @ ls
              \<and> posts ls = []"
      unfolding out
      by (cases r; cases ?status)
         (simp_all add: producer_start_failed_def report_simps request_simps j0 cj posts_simps)
    then obtain ls
      where "journal (snd (start_producer pm net n vc w)) = journal w @ (js0 @ cjs @ ls)"
        and "posts ls = []"
      by auto
    from since_journal [OF this(1)] this(2) quiet
    have ps: "posts (since w (snd (start_producer pm net n vc w))) = posts cjs"
      by (simp add: posts_append)
    have "post_policy net (posts cjs) (fst (start_producer pm net n vc w)) n"
    proof (rule post_policy_posts [of net api w1])
      show "journal (snd (configure_then_start net api w1)) = journal w1 @ cjs"
        using run cj by simp
      show "fst (start_producer pm net n vc w) = Failed n (Raised x)"
        if "fst (configure_then_start net api w1) = Some x" for x
        using that run res by simp
      show "fst (configure_then_start net api w1) = None"
        if "fst (start_producer pm net n vc w) = Started n"
        using that run started by simp
    qed
    with ps show ?thesis by simp
  qed
qed

lemma upper_info: "upper ''info'' = ''INFO''"
  by code_simp

lemma demo_consumers_built:
  "ConsumerManager demo_cfg [(''v1_consumer'', \<lparr>ip_address = Some ''172.18.0.5''\<rparr>)]
     = Inr demo_consumers"
  by (simp add: ConsumerManager_def consumer_default_def consumer_classes_def dict_update_def
      demo_cfg_def demo_consumers_def upper_info Let_def)

text \<open>The start of the consumer \<open>v1_consumer\<close> on \<open>not_modified\<close>, run through.\<close>

lemma start_consumer_on_not_modified:
  "posts (since start_of_time
            (snd (start_consumer demo_consumers not_modified ''v1_consumer''
                    \<lparr>ip_address = Some ''172.18.0.5''\<rparr> start_of_time)))
     = [(3, ''http://v1_consumer:5000/configure''), (4, ''http://v1_consumer:5000/start'')]
   \<and> fst (start_consumer demo_consumers not_modified ''v1_consumer''
            \<lparr>ip_address = Some ''172.18.0.5''\<rparr> start_of_time)
       = Started ''v1_consumer''"
  by (simp add: demo_consumers_def demo_cfg_def Let_def start_consumer_def first_field_def
      consumer_api_url_def wait_for_health_def consumer_health_loop.simps
      consumer_health_poll_def cfg_payload_def consumer_keys_def configure_then_start_def
      checked_def request_def report_def sleep_def not_modified_def start_of_time_def ok_def
      raises_for_status_def has_marker_def consumer_markers_def since_def posts_simps
      range_list_def)

text \<open>
  C5, as stated, fails: the claim has every response to \<open>/configure\<close> that is not 2xx
  abort the start. \<open>raise_for_status\<close> raises for 4xx and 5xx only. On \<open>not_modified\<close>
  the consumer \<open>v1_consumer\<close> is healthy at its name-based address, its \<open>/configure\<close>
  answers the POST of second 3 with status 304, and the POST to \<open>/start\<close> follows at
  second 4; the outcome is success.
\<close>

theorem start_after_304:
  "snd (not_modified 3 POST ''http://v1_consumer:5000/configure'') = Response 304 Unparsable
   \<and> posts (since start_of_time
              (snd (start_consumer demo_consumers not_modified ''v1_consumer''
                      \<lparr>ip_address = Some ''172.18.0.5''\<rparr> start_of_time)))
       = [(3, ''http://v1_consumer:5000/configure''), (4, ''http://v1_consumer:5000/start'')]
   \<and> fst (start_consumer demo_consumers not_modified ''v1_consumer''
            \<lparr>ip_address = Some ''172.18.0.5''\<rparr> start_of_time)
       = Started ''v1_consumer''"
  using start_consumer_on_not_modified by (simp add: not_modified_def)

text \<open>
  C5, amended. For every start of a consumer and of a producer, the POSTs it makes and
  its outcome obey \<open>post_policy\<close>: the POST to \<open>/start\<close> is issued only right after a
  POST to \<open>/configure\<close> of the same address that neither raised a transport error nor
  came back with a status from 400 to 599; a POST to \<open>/configure\<close> that did either is
  the last POST of that start, and the outcome is the failure it raised; a POST to
  \<open>/start\<close> that did either gives the failure outcome too; and the outcome is success
  only after both POSTs went through. A response with any other status, 2xx or not,
  counts as gone through.
\<close>

theorem configure_before_start:
  "post_policy net (posts (since w (snd (start_consumer cm net n box w))))
     (fst (start_consumer cm net n box w)) n
   \<and> post_policy net (posts (since w (snd (start_producer pm net n vc w))))
       (fst (start_producer pm net n vc w)) n
   \<and> (checked (Response status b) = None \<longleftrightarrow> \<not> (400 \<le> status \<and> status < 600))
   \<and> checked (Raises x) = Some x"
  using start_consumer_policy [of net w cm n box] start_producer_policy [of net w pm n vc]
  by (simp add: checked_def raises_for_status_def)

theorem configure_before_start_witness:
  "\<exists>t0. posts (since start_of_time
                 (snd (start_consumer demo_consumers not_modified ''v1_consumer''
                         \<lparr>ip_address = Some ''172.18.0.5''\<rparr> start_of_time)))
          = [(t0, ''http://v1_consumer:5000'' @ ''/configure''),
             (4, ''http://v1_consumer:5000'' @ ''/start'')]
       \<and> checked (snd (not_modified t0 POST (''http://v1_consumer:5000'' @ ''/configure'')))
           = None"
proof -
  let ?box = "\<lparr>ip_address = Some ''172.18.0.5''\<rparr>"
  let ?ps = "posts (since start_of_time
                      (snd (start_consumer demo_consumers not_modified ''v1_consumer'' ?box
                              start_of_time)))"
  from start_consumer_on_not_modified
  have "(4, ''http://v1_consumer:5000'' @ ''/start'') \<in> set ?ps"
    by simp
  moreover
  note configure_before_start [of not_modified start_of_time demo_consumers "''v1_consumer''"
      ?box, THEN conjunct1, unfolded post_policy_def, THEN conjunct1, THEN spec, THEN spec,
      of 4 "''http://v1_consumer:5000''"]
  ultimately show ?thesis
    by (rule rev_mp)
qed

subsection \<open>C7: stopping workers\<close>















subsection \<open>C1: one outcome for each worker\<close>

lemma worker_start_consumer: "worker (fst (start_consumer cm net n box w)) = n"
  by (simp add: start_consumer_def consumer_start_failed_def worker_def Let_def
      split: option.splits prod.splits sum.splits)

text \<open>
  \<open>start_all_consumers\<close> hands back one outcome for each consumer, in the order of the
  dictionary, each for the consumer of that place.
\<close>

lemma start_consumers_workers: "map worker (fst (start_consumers cm net cs w)) = map fst cs"
proof (induction cs arbitrary: w)
  case Nil
  show ?case by simp
next
  case (Cons a cs)
  obtain n box where a: "a = (n, box)" by (cases a)
  obtain r w1 where one: "start_consumer cm net n box w = (r, w1)"
    by (cases "start_consumer cm net n box w")
  obtain rs w2 where more: "start_consumers cm net cs w1 = (rs, w2)"
    by (cases "start_consumers cm net cs w1")
  from worker_start_consumer [of cm net n box w] one have "worker r = n" by simp
  with Cons.IH [of w1] a one more show ?case by simp
qed

lemma start_all_consumers_workers:
  "map worker (snd (fst (start_all_consumers cm net w))) = map fst (consumers cm)"
  using start_consumers_workers [of cm net "consumers cm" w]
  by (cases "start_consumers cm net (consumers cm) w") (simp add: start_all_consumers_def)

lemma worker_start_producer: "worker (fst (start_producer pm net n vc w)) = n"
  by (simp add: start_producer_def producer_start_failed_def worker_def Let_def
      split: option.splits prod.splits sum.splits)

text \<open>
  \<open>start_all_producers\<close>, when it returns, hands back outcomes for the producers that
  \<open>zip\<close> pairs with a vehicle name: as many of the first producers as there are vehicle
  names.
\<close>

lemma start_producers_workers:
  "fst (start_producers pm net pairs w) = Inr rs \<Longrightarrow> map worker rs = map fst pairs"
proof (induction pairs arbitrary: w rs)
  case Nil
  then show ?case by simp
next
  case (Cons a pairs)
  obtain p v where a: "a = (p, v)" by (cases a)
  from Cons.prems a obtain vc where vc: "map_of (vehicle_configs pm) v = Some vc"
    by (cases "map_of (vehicle_configs pm) v") simp_all
  obtain r w1 where one: "start_producer pm net p vc w = (r, w1)"
    by (cases "start_producer pm net p vc w")
  obtain r2 w2 where more: "start_producers pm net pairs w1 = (r2, w2)"
    by (cases "start_producers pm net pairs w1")
  from Cons.prems a vc one more obtain as where "r2 = Inr as" and "rs = r # as"
    by (auto split: sum.splits)
  with worker_start_producer [of pm net p vc w] Cons.IH [of w1 as] one more a
  show ?case by simp
qed

lemma start_all_producers_workers:
  "fst (start_all_producers pm net w) = Inr (msg, rs)
   \<Longrightarrow> map worker rs = take (length (vehicle_names pm)) (map fst (producers pm))"
proof -
  assume "fst (start_all_producers pm net w) = Inr (msg, rs)"
  then have "fst (start_producers pm net (zip (map fst (producers pm)) (vehicle_names pm)) w)
               = Inr rs"
    by (auto simp: start_all_producers_def split: prod.splits sum.splits)
  from start_producers_workers [OF this] show ?thesis
    by (simp add: map_fst_zip_take min_def take_all)
qed

lemma serializable_ints: "list_all serializable (map CInt xs)"
  by (induction xs) simp_all

text \<open>
  C1: the code breaks the claim where the manager has more producers than the
  configuration has vehicles. With the two producers \<open>v1_producer\<close> and \<open>v2_producer\<close>,
  both healthy, and the one vehicle \<open>v1\<close>, \<open>zip\<close> ends after the first pair:
  \<open>start_all_producers\<close> hands back one outcome, for \<open>v1_producer\<close>, and nothing for
  \<open>v2_producer\<close>, which it never tries to start.
\<close>

theorem start_all_producers_drops_producer:
  "case ProducerManager (demo_cfg\<lparr>vehicles := [VStr ''v1'']\<rparr>)
          [(''v1_producer'', \<lparr>ip_address = Some ''172.18.0.5''\<rparr>),
           (''v2_producer'', \<lparr>ip_address = Some ''172.18.0.6''\<rparr>)]
          [(''v1_producer'', ''172.18.0.5''), (''v2_producer'', ''172.18.0.6'')] of
     Inl _ \<Rightarrow> False
   | Inr pm \<Rightarrow>
       map fst (producers pm) = [''v1_producer'', ''v2_producer'']
       \<and> vehicle_names pm = [''v1'']
       \<and> fst (start_all_producers pm address_down start_of_time)
           = Inr (''All producers started!'', [Started ''v1_producer''])
       \<and> requests (journal (snd (start_all_producers pm address_down start_of_time)))
           = [(GET, ''http://v1_producer:5000/health''),
              (POST, ''http://v1_producer:5000/configure''),
              (POST, ''http://v1_producer:5000/start''),
              (GET, ''http://v1_producer:5000/status'')]"
  by (simp add: ProducerManager_def producer_classes_def dict_update_def demo_cfg_def Let_def
      start_all_producers_def start_producer_def first_field_def
      producer_wait_for_health_def producer_health_loop.simps producer_health_poll_def
      build_config_data_def get_or_def configure_then_start_def checked_def
      request_def report_def sleep_def address_down_def start_of_time_def ok_def
      raises_for_status_def has_marker_def producer_markers_def requests_def
      range_list_def serializable_ints)

end
